theory Spec2Isabelle
  imports Complex_Main "HOL-Library.Word" "HOL-Library.Signed_Division"
begin

unbundle bit_operations_syntax

section \<open>SmallVCM: the render harness of smallvcm.cxx\<close>

text \<open>
  The development embeds \<^verbatim>\<open>src/smallvcm.cxx\<close>: the lookup tables of \<^verbatim>\<open>Config\<close>, the
  function \<^verbatim>\<open>render\<close> and the scene sweep of \<^verbatim>\<open>main\<close>. The renderers, the framebuffer,
  the scene, OpenMP and the process clock live in headers that are not part of the file;
  they enter the model as the parameters of an environment record or as small
  definitions marked as modelled from the specification.
\<close>

subsection \<open>Machine values\<close>

text \<open>
  A C++ \<^verbatim>\<open>int\<close> and a \<^verbatim>\<open>uint\<close> are 32-bit words: \<open>+\<close> wraps, \<open>sint\<close> reads an
  \<^verbatim>\<open>int\<close>. Loop counters that run from 0 up to a bound are natural numbers.
\<close>

type_synonym int32 = "32 word"
type_synonym uint = "32 word"

text \<open>
  What C++ leaves undefined or answers with an exception is a value of the model:
  \<^verbatim>\<open>new T[n]\<close> with a negative \<open>n\<close>, the use of a renderer pointer that was never
  assigned or lies outside the array, and a read past the end of a table.
\<close>

datatype fault = bad_array_new_length | invalid_pointer | out_of_bounds_read

text \<open>
  A \<^verbatim>\<open>float\<close>. Finite values are idealised as exact reals (rounding and overflow
  are not modelled, and the two zeros are one); the infinities and NaN follow
  IEEE 754, so that a division by zero is visible in the model instead of being
  HOL's \<open>x / 0 = 0\<close>. Binary32 rounds where the model does not: \<^verbatim>\<open>1.f / 3\<close> is not
  one third. The general statements below therefore rest on no finite result being
  exact: they name the operations \<^verbatim>\<open>render\<close> applies and use of the arithmetic only
  \<open>1 / 0 = +\<infinity>\<close>, \<open>1 / 1 = 1\<close> and \<open>x * 1 = x\<close>, which binary32 shares. The finite
  results evaluated on the example runs (sums and halves of small integers, \<open>6 / 2\<close>,
  \<open>8 / 4\<close>) are exact in binary32 as well.
\<close>

datatype float = Fin real | PInf | NInf | NaN

fun fadd :: "float \<Rightarrow> float \<Rightarrow> float" where
  "fadd NaN y = NaN"
| "fadd x NaN = NaN"
| "fadd (Fin a) (Fin b) = Fin (a + b)"
| "fadd (Fin a) y = y"
| "fadd x (Fin b) = x"
| "fadd PInf PInf = PInf"
| "fadd NInf NInf = NInf"
| "fadd PInf NInf = NaN"
| "fadd NInf PInf = NaN"

definition inf_of_sign :: "real \<Rightarrow> float" where
  "inf_of_sign a = (if 0 < a then PInf else if a < 0 then NInf else NaN)"

fun fneg :: "float \<Rightarrow> float" where
  "fneg (Fin a) = Fin (- a)"
| "fneg PInf = NInf"
| "fneg NInf = PInf"
| "fneg NaN = NaN"

fun fmul :: "float \<Rightarrow> float \<Rightarrow> float" where
  "fmul NaN y = NaN"
| "fmul x NaN = NaN"
| "fmul (Fin a) (Fin b) = Fin (a * b)"
| "fmul (Fin a) PInf = inf_of_sign a"
| "fmul (Fin a) NInf = inf_of_sign (- a)"
| "fmul PInf (Fin b) = inf_of_sign b"
| "fmul NInf (Fin b) = inf_of_sign (- b)"
| "fmul PInf y = y"
| "fmul NInf y = fneg y"

fun fdiv :: "float \<Rightarrow> float \<Rightarrow> float" where
  "fdiv NaN y = NaN"
| "fdiv x NaN = NaN"
| "fdiv (Fin a) (Fin b) = (if b = 0 then inf_of_sign a else Fin (a / b))"
| "fdiv (Fin a) y = Fin 0"
| "fdiv PInf (Fin b) = (if b < 0 then NInf else PInf)"
| "fdiv NInf (Fin b) = (if b < 0 then PInf else NInf)"
| "fdiv x y = NaN"

text \<open>The conversions \<^verbatim>\<open>float(n)\<close> of an integer.\<close>

definition float_of_int :: "int \<Rightarrow> float" where
  "float_of_int n = Fin (of_int n)"

definition float_of_nat :: "nat \<Rightarrow> float" where
  "float_of_nat n = Fin (of_nat n)"

subsection \<open>The framebuffer\<close>

text \<open>
  Modelled from the spec: \<^verbatim>\<open>framebuffer.hxx\<close> is not among the sources. A framebuffer
  is its sequence of colour components; \<^verbatim>\<open>Add\<close> adds another buffer
  "elementwise into the aggregate", \<^verbatim>\<open>Scale\<close> "scales every aggregate element".
\<close>

type_synonym Framebuffer = "float list"

definition Add :: "Framebuffer \<Rightarrow> Framebuffer \<Rightarrow> Framebuffer" where
  "Add fb other = map2 fadd fb other"

definition Scale :: "Framebuffer \<Rightarrow> float \<Rightarrow> Framebuffer" where
  "Scale fb aScale = map (\<lambda>c. fmul c aScale) fb"

subsection \<open>Renderers\<close>

text \<open>
  The three renderer classes and the constructor arguments \<^verbatim>\<open>render\<close> passes to them:
  \<^verbatim>\<open>EyeLight(scene)\<close>, \<^verbatim>\<open>PathTracer(scene, seed)\<close>, \<^verbatim>\<open>VertexCM(scene, mode, seed)\<close>.
\<close>

datatype AlgorithmType = kLightTrace | kPpm | kBpm | kBpt | kVcm

datatype 'scene renderer_class =
    EyeLight 'scene
  | PathTracer 'scene int32
  | VertexCM 'scene AlgorithmType int32

fun seed_of :: "'scene renderer_class \<Rightarrow> int32 option" where
  "seed_of (EyeLight sc) = None"
| "seed_of (PathTracer sc s) = Some s"
| "seed_of (VertexCM sc m s) = Some s"

text \<open>
  Modelled from the spec: \<^verbatim>\<open>renderer.hxx\<close>, \<^verbatim>\<open>eyelight.hxx\<close>, \<^verbatim>\<open>pathtracer.hxx\<close> and
  \<^verbatim>\<open>vertexcm.hxx\<close> are not among the sources. A renderer instance is "an opaque stateful
  simulator": the model keeps what was done to it, namely the constructor call, the
  value last stored into its \<^verbatim>\<open>mMaxPathLength\<close> (\<open>None\<close> while it is as the constructor
  left it) and the iteration indices \<^verbatim>\<open>RunIteration\<close> was called with, oldest first.
  Its "used" flag is "false until its first iteration executes". What
  \<^verbatim>\<open>GetFramebuffer\<close> extracts is a parameter of the environment below.
\<close>

record 'scene AbstractRenderer =
  constructed :: "'scene renderer_class"
  rMaxPathLength :: "uint option"
  runs :: "int list"

definition new :: "'scene renderer_class \<Rightarrow> 'scene AbstractRenderer" where
  "new c = \<lparr>constructed = c, rMaxPathLength = None, runs = []\<rparr>"

definition RunIteration :: "'scene AbstractRenderer \<Rightarrow> int \<Rightarrow> 'scene AbstractRenderer" where
  "RunIteration r aIteration = r\<lparr>runs := runs r @ [aIteration]\<rparr>"

definition WasUsed :: "'scene AbstractRenderer \<Rightarrow> bool" where
  "WasUsed r = (runs r \<noteq> [])"

text \<open>
  The array \<^verbatim>\<open>renderers\<close>: one pointer per slot, \<open>None\<close> while the pointer is
  unassigned. \<open>deref\<close> is \<^verbatim>\<open>renderers[i]->\<close>.
\<close>

type_synonym 'scene renderers = "'scene AbstractRenderer option list"

definition deref :: "'scene renderers \<Rightarrow> nat \<Rightarrow> fault + 'scene AbstractRenderer" where
  "deref renderers i =
     (if i < length renderers
      then (case renderers ! i of None \<Rightarrow> Inl invalid_pointer | Some r \<Rightarrow> Inr r)
      else Inl invalid_pointer)"

text \<open>A counted loop whose body may fault: the first fault ends it.\<close>

primrec for_each :: "nat list \<Rightarrow> (nat \<Rightarrow> 's \<Rightarrow> fault + 's) \<Rightarrow> 's \<Rightarrow> fault + 's" where
  "for_each [] body s = Inr s"
| "for_each (i # is) body s =
     (case body i s of Inl e \<Rightarrow> Inl e | Inr s' \<Rightarrow> for_each is body s')"

subsection \<open>Config\<close>

text \<open>
  \<^verbatim>\<open>Config::Algorithm\<close> is an unscoped enumeration; \<^verbatim>\<open>mAlgorithm\<close> is modelled by
  its integer value, which is what \<^verbatim>\<open>GetName\<close> compares and \<^verbatim>\<open>render\<close> switches on.
  \<^verbatim>\<open>mFramebuffer\<close> is a pointer to the caller's buffer: the field holds the buffer's
  contents when \<^verbatim>\<open>render\<close> is entered, and \<^verbatim>\<open>render\<close> returns the contents it leaves.
\<close>

definition kEyeLight :: int where "kEyeLight = 0"
definition kPathTracing :: int where "kPathTracing = 1"
definition kLightTracing :: int where "kLightTracing = 2"
definition kProgressivePhotonMapping :: int where "kProgressivePhotonMapping = 3"
definition kBidirectionalPhotonMapping :: int where "kBidirectionalPhotonMapping = 4"
definition kBidirectionalPathTracing :: int where "kBidirectionalPathTracing = 5"
definition kVertexConnectionMerging :: int where "kVertexConnectionMerging = 6"
definition kAlgorithmMax :: int where "kAlgorithmMax = 7"

record 'scene Config =
  mScene :: 'scene
  mAlgorithm :: int
  mIterations :: int32
  mFramebuffer :: Framebuffer
  mNumThreads :: int32
  mBaseSeed :: int32
  mMaxPathLength :: uint

text \<open>
  \<^verbatim>\<open>table[i]\<close> on a C array: an index outside the array reads past it. For
  \<^verbatim>\<open>algorithmNames[mAlgorithm]\<close>, a table of 7 entries, the indices inside are \<open>0..6\<close>.
\<close>

definition table_read :: "'a list \<Rightarrow> int \<Rightarrow> fault + 'a" where
  "table_read table i =
     (if 0 \<le> i \<and> nat i < length table then Inr (table ! nat i) else Inl out_of_bounds_read)"

definition GetName_algorithmNames :: "string list" where
  "GetName_algorithmNames =
     [''Eye Light (L.N, DotLN)'',
      ''Path Tracing'',
      ''Light Tracing'',
      ''Progressive Photon Mapping'',
      ''Bidirectional Photon Mapping'',
      ''Bidirectional Path Tracing'',
      ''Vertex Connection Merging'']"

definition GetName :: "'scene Config \<Rightarrow> fault + string" where
  "GetName c =
     (if mAlgorithm c < 0 \<or> mAlgorithm c > 7
      then Inr ''Uknown algorithm''
      else table_read GetName_algorithmNames (mAlgorithm c))"

definition GetAcronym_algorithmNames :: "string list" where
  "GetAcronym_algorithmNames = [''el'', ''pt'', ''lt'', ''ppm'', ''bpm'', ''bpt'', ''vcm'']"

definition GetAcronym :: "'scene Config \<Rightarrow> fault + string" where
  "GetAcronym c =
     (if mAlgorithm c < 0 \<or> mAlgorithm c > 7
      then Inr ''uknown''
      else table_read GetAcronym_algorithmNames (mAlgorithm c))"

subsection \<open>The environment of render\<close>

text \<open>
  What \<^verbatim>\<open>render\<close> takes from outside the file.
  \<^item> \<open>omp_get_thread_num\<close>: the thread that the OpenMP schedule gives iteration \<open>iter\<close>
    of the \<^verbatim>\<open>parallel for\<close>. The loop is modelled as OpenMP specifies a worksharing
    loop: every iteration of the range runs once, on the thread named here. A
    renderer is touched by its own thread only, so the model runs the iterations in
    index order; interleaving is not modelled.
  \<^item> \<open>GetFramebuffer\<close>: the buffer \<^verbatim>\<open>AbstractRenderer::GetFramebuffer\<close> extracts from a
    renderer in a given state.
  \<^item> the process clock: its value when \<^verbatim>\<open>render\<close> is entered and the ticks each stage of
    \<^verbatim>\<open>render\<close> consumes; \<^verbatim>\<open>clock()\<close> read after some stages returns the entry value
    plus their ticks.
  \<^item> \<open>CLOCKS_PER_SEC\<close>: the macro of \<^verbatim>\<open>time.h\<close>.
\<close>

datatype stage = Construction | Dispatch | Merge | Teardown

record 'scene extern =
  omp_get_thread_num :: "nat \<Rightarrow> nat"
  GetFramebuffer :: "'scene AbstractRenderer \<Rightarrow> Framebuffer"
  clock_at_entry :: int
  ticks :: "stage \<Rightarrow> nat"
  CLOCKS_PER_SEC :: int

definition clock :: "'scene extern \<Rightarrow> stage list \<Rightarrow> int" where
  "clock env done_stages = clock_at_entry env + int (sum_list (map (ticks env) done_stages))"

subsection \<open>render\<close>

text \<open>Line 79: \<^verbatim>\<open>renderers = new AbstractRendererPtr[aConfig.mNumThreads]\<close>.\<close>

definition new_array :: "int32 \<Rightarrow> fault + 'scene renderers" where
  "new_array n = (if sint n < 0 then Inl bad_array_new_length else Inr (replicate (nat (sint n)) None))"

text \<open>
  The loop \<^verbatim>\<open>for(int i=0; i<aConfig.mNumThreads; i++) renderers[i] = new C(...)\<close> of
  each case of the switch; \<open>args i\<close> is the constructor call of slot \<open>i\<close>.
\<close>

definition construct_each ::
  "int32 \<Rightarrow> (nat \<Rightarrow> 'scene renderer_class) \<Rightarrow> 'scene renderers \<Rightarrow> 'scene renderers" where
  "construct_each n args renderers =
     fold (\<lambda>i rs. rs[i := Some (new (args i))]) [0..<nat (sint n)] renderers"

text \<open>
  Lines 81-120: the switch. The result is the array and the local \<^verbatim>\<open>iterations\<close>.
  A selector that matches no case leaves both as they were. The seed
  \<^verbatim>\<open>aConfig.mBaseSeed + i\<close> is an \<^verbatim>\<open>int\<close> addition; where C++ leaves its overflow
  undefined the model wraps around, as two's-complement hardware does.
\<close>

definition construct_renderers ::
  "'scene Config \<Rightarrow> 'scene renderers \<Rightarrow> 'scene renderers \<times> int32" where
  "construct_renderers aConfig renderers =
     (let iterations = mIterations aConfig;
          n = mNumThreads aConfig;
          scene = mScene aConfig;
          seed = (\<lambda>i. mBaseSeed aConfig + of_nat i)
      in
      if mAlgorithm aConfig = kEyeLight then
        (construct_each n (\<lambda>i. EyeLight scene) renderers, 1)
      else if mAlgorithm aConfig = kPathTracing then
        (construct_each n (\<lambda>i. PathTracer scene (seed i)) renderers, iterations)
      else if mAlgorithm aConfig = kLightTracing then
        (construct_each n (\<lambda>i. VertexCM scene kLightTrace (seed i)) renderers, iterations)
      else if mAlgorithm aConfig = kProgressivePhotonMapping then
        (construct_each n (\<lambda>i. VertexCM scene kPpm (seed i)) renderers, iterations)
      else if mAlgorithm aConfig = kBidirectionalPhotonMapping then
        (construct_each n (\<lambda>i. VertexCM scene kBpm (seed i)) renderers, iterations)
      else if mAlgorithm aConfig = kBidirectionalPathTracing then
        (construct_each n (\<lambda>i. VertexCM scene kBpt (seed i)) renderers, iterations)
      else if mAlgorithm aConfig = kVertexConnectionMerging then
        (construct_each n (\<lambda>i. VertexCM scene kVcm (seed i)) renderers, iterations)
      else (renderers, iterations))"

text \<open>Lines 122-123: \<^verbatim>\<open>renderers[i]->mMaxPathLength = aConfig.mMaxPathLength\<close>.\<close>

definition set_max_path_length ::
  "'scene Config \<Rightarrow> 'scene renderers \<Rightarrow> fault + 'scene renderers" where
  "set_max_path_length aConfig renderers =
     for_each [0..<nat (sint (mNumThreads aConfig))]
       (\<lambda>i rs. case deref rs i of
                  Inl e \<Rightarrow> Inl e
                | Inr r \<Rightarrow> Inr (rs[i := Some (r\<lparr>rMaxPathLength := Some (mMaxPathLength aConfig)\<rparr>)]))
       renderers"

text \<open>Lines 79-123 together: the renderers as the iteration loop finds them, and \<^verbatim>\<open>iterations\<close>.\<close>

definition prepared :: "'scene Config \<Rightarrow> fault + ('scene renderers \<times> int32)" where
  "prepared aConfig =
     (case new_array (mNumThreads aConfig) of
        Inl e \<Rightarrow> Inl e
      | Inr renderers \<Rightarrow>
          (case construct_renderers aConfig renderers of
             (renderers, iterations) \<Rightarrow>
               (case set_max_path_length aConfig renderers of
                  Inl e \<Rightarrow> Inl e
                | Inr renderers \<Rightarrow> Inr (renderers, iterations))))"

text \<open>
  Lines 126-131: the \<^verbatim>\<open>parallel for\<close>. Iteration \<open>iter\<close> calls \<^verbatim>\<open>RunIteration(iter)\<close> on
  \<^verbatim>\<open>renderers[omp_get_thread_num()]\<close>. Line 75 has asked OpenMP for
  \<^verbatim>\<open>aConfig.mNumThreads\<close> threads; a thread number outside the array faults.
\<close>

definition dispatch ::
  "'scene extern \<Rightarrow> int32 \<Rightarrow> 'scene renderers \<Rightarrow> fault + 'scene renderers" where
  "dispatch env iterations renderers =
     for_each [0..<nat (sint iterations)]
       (\<lambda>iter rs.
          let threadId = omp_get_thread_num env iter in
          case deref rs threadId of
            Inl e \<Rightarrow> Inl e
          | Inr r \<Rightarrow> Inr (rs[threadId := Some (RunIteration r (int iter))]))
       renderers"

text \<open>The renderers as the iteration loop leaves them.\<close>

definition dispatched :: "'scene extern \<Rightarrow> 'scene Config \<Rightarrow> fault + 'scene renderers" where
  "dispatched env aConfig =
     (case prepared aConfig of
        Inl e \<Rightarrow> Inl e
      | Inr (renderers, iterations) \<Rightarrow> dispatch env iterations renderers)"

text \<open>
  Lines 134-149: the merge loop. Its state is the caller's framebuffer and
  \<^verbatim>\<open>usedRenderers\<close>.
\<close>

definition merge_body ::
  "'scene extern \<Rightarrow> 'scene renderers \<Rightarrow> nat \<Rightarrow> Framebuffer \<times> nat \<Rightarrow> fault + (Framebuffer \<times> nat)" where
  "merge_body env renderers i st =
     (case st of (framebuffer, usedRenderers) \<Rightarrow>
        (case deref renderers i of
           Inl e \<Rightarrow> Inl e
         | Inr r \<Rightarrow>
             if \<not> WasUsed r then Inr (framebuffer, usedRenderers)
             else if usedRenderers = 0 then Inr (GetFramebuffer env r, usedRenderers + 1)
             else
               (let tmp = GetFramebuffer env r
                in Inr (Add framebuffer tmp, usedRenderers + 1))))"

definition merge ::
  "'scene extern \<Rightarrow> 'scene Config \<Rightarrow> 'scene renderers \<Rightarrow> fault + (Framebuffer \<times> nat)" where
  "merge env aConfig renderers =
     for_each [0..<nat (sint (mNumThreads aConfig))] (merge_body env renderers)
       (mFramebuffer aConfig, 0)"

text \<open>
  \<^verbatim>\<open>render\<close>, lines 73-158. The result is the caller's framebuffer as \<^verbatim>\<open>render\<close> leaves it
  and the returned \<^verbatim>\<open>float\<close>. Deleting the renderers (lines 153-155) changes neither.
\<close>

definition render :: "'scene extern \<Rightarrow> 'scene Config \<Rightarrow> fault + (Framebuffer \<times> float)" where
  "render env aConfig =
     (case prepared aConfig of
        Inl e \<Rightarrow> Inl e
      | Inr (renderers, iterations) \<Rightarrow>
          (let startT = clock env [Construction] in
           case dispatch env iterations renderers of
             Inl e \<Rightarrow> Inl e
           | Inr renderers \<Rightarrow>
               (let endT = clock env [Construction, Dispatch] in
                case merge env aConfig renderers of
                  Inl e \<Rightarrow> Inl e
                | Inr (framebuffer, usedRenderers) \<Rightarrow>
                    Inr (Scale framebuffer (fdiv (Fin 1) (float_of_nat usedRenderers)),
                         fdiv (float_of_int (endT - startT))
                              (float_of_int (CLOCKS_PER_SEC env))))))"

subsection \<open>The scene sweep of main\<close>

text \<open>
  The enumerators of \<^verbatim>\<open>Scene::BoxMask\<close> that \<^verbatim>\<open>main\<close> names; \<^verbatim>\<open>scene.hxx\<close> is not
  among the sources, so their values are parameters.
\<close>

record BoxMask =
  kLightCeiling :: uint
  kLightSun :: uint
  kLightPoint :: uint
  kLightBackground :: uint
  kBothSmallBalls :: uint
  kBallLargeMirror :: uint
  kGlossyFloor :: uint

record SceneConfig =
  mMask :: uint
  mName :: string
  mAcronym :: string

definition SceneConfig_new :: "uint \<Rightarrow> string \<Rightarrow> string \<Rightarrow> SceneConfig" where
  "SceneConfig_new aMask aName aAcronym = \<lparr>mMask = aMask, mName = aName, mAcronym = aAcronym\<rparr>"

definition sceneConfigs :: "BoxMask \<Rightarrow> SceneConfig list" where
  "sceneConfigs Scene =
     [SceneConfig_new (kLightCeiling Scene) ''Empty + Ceiling'' ''ec'',
      SceneConfig_new (kLightSun Scene) ''Empty + Sun'' ''es'',
      SceneConfig_new (kLightPoint Scene) ''Empty + Point'' ''ep'',
      SceneConfig_new (kLightBackground Scene) ''Empty + Background'' ''eb'',
      SceneConfig_new (kBothSmallBalls Scene OR kLightCeiling Scene) ''Small balls + Ceiling'' ''sbc'',
      SceneConfig_new (kBothSmallBalls Scene OR kLightSun Scene) ''Small balls + Sun'' ''sbs'',
      SceneConfig_new (kBothSmallBalls Scene OR kLightPoint Scene) ''Small balls + Point'' ''sbp'',
      SceneConfig_new (kBothSmallBalls Scene OR kLightBackground Scene) ''Small balls + Background'' ''sbb'',
      SceneConfig_new (kBallLargeMirror Scene OR kLightCeiling Scene) ''Large mirror ball + Ceiling'' ''lbc'',
      SceneConfig_new (kBallLargeMirror Scene OR kLightSun Scene) ''Large mirror ball + Sun'' ''lbs'',
      SceneConfig_new (kBallLargeMirror Scene OR kLightPoint Scene) ''Large mirror ball + Point'' ''lbp'',
      SceneConfig_new (kBallLargeMirror Scene OR kLightBackground Scene) ''Large mirror ball + Background'' ''lbb'']"

text \<open>\<^verbatim>\<open>sizeof(sceneConfigs) / sizeof(SceneConfig)\<close>.\<close>

definition sceneConfigCount :: "BoxMask \<Rightarrow> int" where
  "sceneConfigCount Scene = int (length (sceneConfigs Scene))"

text \<open>
  Lines 217-220, the head of the loop body: from \<^verbatim>\<open>sceneId2\<close> to \<^verbatim>\<open>sceneId\<close> and the
  \<^verbatim>\<open>mask\<close> that \<^verbatim>\<open>LoadCornellBox\<close> receives. \<^verbatim>\<open>%\<close> is the truncating remainder of C++.
\<close>

definition sweep_body :: "BoxMask \<Rightarrow> int \<Rightarrow> fault + (int \<times> uint)" where
  "sweep_body Scene sceneId2 =
     (let sceneId = sceneId2 smod sceneConfigCount Scene in
      case table_read (sceneConfigs Scene) sceneId of
        Inl e \<Rightarrow> Inl e
      | Inr sceneConfig \<Rightarrow>
          (let mask = mMask sceneConfig;
               mask = (if sceneId < sceneConfigCount Scene then mask OR kGlossyFloor Scene else mask)
           in Inr (sceneId, mask)))"

text \<open>
  Line 215: \<^verbatim>\<open>for(int sceneId2 = 0; sceneId2 < sceneConfigCount * 2; sceneId2++)\<close>. The
  result lists, pass by pass, \<^verbatim>\<open>sceneId\<close> and the mask the scene is loaded with.
\<close>

definition main_sweep :: "BoxMask \<Rightarrow> fault + (int \<times> uint) list" where
  "main_sweep Scene =
     for_each [0..<nat (sceneConfigCount Scene * 2)]
       (\<lambda>sceneId2 passes.
          case sweep_body Scene (int sceneId2) of
            Inl e \<Rightarrow> Inl e
          | Inr pass \<Rightarrow> Inr (passes @ [pass]))
       []"

subsection \<open>Notions of the statements\<close>

text \<open>The closed set of algorithm selectors: the seven enumerators below \<^verbatim>\<open>kAlgorithmMax\<close>.\<close>

definition known_algorithm :: "int \<Rightarrow> bool" where
  "known_algorithm a = (0 \<le> a \<and> a < kAlgorithmMax)"

text \<open>The renderer instances of an array, slot by slot, and those of them that report \<^verbatim>\<open>WasUsed\<close>.\<close>

definition instances :: "'scene renderers \<Rightarrow> 'scene AbstractRenderer list" where
  "instances renderers = concat (map (\<lambda>p. case p of None \<Rightarrow> [] | Some r \<Rightarrow> [r]) renderers)"

definition used_instances :: "'scene renderers \<Rightarrow> 'scene AbstractRenderer list" where
  "used_instances renderers = filter WasUsed (instances renderers)"

text \<open>The seed each slot's constructor call received (\<open>None\<close>: the call passes no seed).\<close>

definition assigned_seeds :: "'scene Config \<Rightarrow> int32 option list" where
  "assigned_seeds aConfig =
     (case prepared aConfig of
        Inl e \<Rightarrow> []
      | Inr (renderers, iterations) \<Rightarrow> map (\<lambda>r. seed_of (constructed r)) (instances renderers))"

text \<open>The iteration indices, among the first \<open>k\<close>, that the schedule gives thread \<open>w\<close>.\<close>

definition scheduled :: "'scene extern \<Rightarrow> nat \<Rightarrow> nat \<Rightarrow> int list" where
  "scheduled env k w = map int (filter (\<lambda>iter. omp_get_thread_num env iter = w) [0..<k])"

text \<open>The renderers after the first \<open>k\<close> iterations of the schedule, and the state of the merge loop.\<close>

definition iterated ::
  "'scene extern \<Rightarrow> nat \<Rightarrow> 'scene AbstractRenderer list \<Rightarrow> 'scene AbstractRenderer list" where
  "iterated env k xs = map (\<lambda>w. (xs ! w)\<lparr>runs := runs (xs ! w) @ scheduled env k w\<rparr>) [0..<length xs]"

definition merged ::
  "'scene extern \<Rightarrow> Framebuffer \<Rightarrow> 'scene AbstractRenderer list \<Rightarrow> Framebuffer \<times> nat" where
  "merged env fb0 U =
     (case U of
        [] \<Rightarrow> (fb0, 0)
      | u # us \<Rightarrow> (foldl Add (GetFramebuffer env u) (map (GetFramebuffer env) us), length U))"

text \<open>A renderer as the iteration loop finds it: constructed, its path-length bound set, never run.\<close>

definition ready :: "'scene Config \<Rightarrow> 'scene renderer_class \<Rightarrow> 'scene AbstractRenderer" where
  "ready c cls = \<lparr>constructed = cls, rMaxPathLength = Some (mMaxPathLength c), runs = []\<rparr>"

text \<open>The seconds that the ticks of the dispatch stage amount to, as a \<^verbatim>\<open>float\<close>.\<close>

definition elapsed :: "'scene extern \<Rightarrow> float" where
  "elapsed env = fdiv (float_of_int (int (ticks env Dispatch))) (float_of_int (CLOCKS_PER_SEC env))"

subsection \<open>Example runs\<close>

text \<open>
  Concrete inputs on which the statements below are evaluated. The environment has two
  threads, iteration \<open>iter\<close> running on thread \<open>iter mod 2\<close>; the renderer seeded 1000
  yields the buffer \<open>[2, 4]\<close> and every other renderer \<open>[6, 0]\<close>, the two partial
  buffers of the aggregation example of the specification. The path-tracing run has
  two workers and three iterations, so that its first worker runs two of them and its
  second worker one.
\<close>

definition two_threads :: "unit extern" where
  "two_threads =
     \<lparr>omp_get_thread_num = (\<lambda>iter. iter mod 2),
      GetFramebuffer =
        (\<lambda>r. if seed_of (constructed r) = Some 1000 then [Fin 2, Fin 4] else [Fin 6, Fin 0]),
      clock_at_entry = 50,
      ticks = (\<lambda>s. case s of Construction \<Rightarrow> 3 | Dispatch \<Rightarrow> 6 | Merge \<Rightarrow> 5 | Teardown \<Rightarrow> 7),
      CLOCKS_PER_SEC = 2\<rparr>"

definition path_tracing_run :: "unit Config" where
  "path_tracing_run =
     \<lparr>mScene = (), mAlgorithm = kPathTracing, mIterations = 3, mFramebuffer = [Fin 9, Fin 0],
      mNumThreads = 2, mBaseSeed = 1000, mMaxPathLength = 10\<rparr>"

definition no_iterations_run :: "unit Config" where
  "no_iterations_run = path_tracing_run\<lparr>mIterations := 0\<rparr>"

definition eye_light_run :: "unit Config" where
  "eye_light_run = path_tracing_run\<lparr>mAlgorithm := kEyeLight, mIterations := 5\<rparr>"

section \<open>The loops in closed form\<close>

subsection \<open>Counted loops and array updates\<close>

lemma for_each_append:
  "for_each (xs @ ys) body s = (case for_each xs body s of Inl e \<Rightarrow> Inl e | Inr s' \<Rightarrow> for_each ys body s')"
  by (induction xs arbitrary: s) (auto split: sum.splits)

lemma for_each_upt_Suc:
  "for_each [0..<Suc k] body s = (case for_each [0..<k] body s of Inl e \<Rightarrow> Inl e | Inr s' \<Rightarrow> body k s')"
  by (simp add: for_each_append split: sum.splits)

lemma fold_update_upt:
  "k \<le> length rs \<Longrightarrow> fold (\<lambda>i rs. rs[i := f i]) [0..<k] rs = map f [0..<k] @ drop k rs"
proof (induction k)
  case 0
  then show ?case by simp
next
  case (Suc k)
  then have "fold (\<lambda>i rs. rs[i := f i]) [0..<Suc k] rs = (map f [0..<k] @ drop k rs)[k := f k]"
    by simp
  also have "\<dots> = map f [0..<k] @ (drop k rs)[0 := f k]"
    by (simp add: list_update_append)
  also have "(drop k rs)[0 := f k] = f k # drop (Suc k) rs"
    using Suc.prems by (metis Cons_nth_drop_Suc Suc_le_lessD list_update_code(2))
  finally show ?case by simp
qed

lemma construct_each_eq:
  "length rs = nat (sint n) \<Longrightarrow>
   construct_each n args rs = map (\<lambda>i. Some (new (args i))) [0..<nat (sint n)]"
  by (simp add: construct_each_def fold_update_upt)

lemma deref_Some: "i < length xs \<Longrightarrow> deref (map Some xs) i = Inr (xs ! i)"
  by (simp add: deref_def)

lemma update_map_Some: "(map Some xs)[i := Some x] = map Some (xs[i := x])"
  by (simp add: map_update)

lemma slot_loop:
  assumes "k \<le> length xs"
  shows "for_each [0..<k]
           (\<lambda>i rs. case deref rs i of Inl e \<Rightarrow> Inl e | Inr r \<Rightarrow> Inr (rs[i := Some (g r)]))
           (map Some xs)
         = Inr (map Some (map g (take k xs) @ drop k xs))"
  using assms
proof (induction k)
  case 0
  then show ?case by simp
next
  case (Suc k)
  define ys where "ys = map g (take k xs) @ drop k xs"
  have k: "k < length xs" using Suc.prems by simp
  have len: "k < length ys" using k by (simp add: ys_def)
  have at: "ys ! k = xs ! k" using k by (simp add: ys_def nth_append)
  have upd: "ys[k := g (xs ! k)] = map g (take (Suc k) xs) @ drop (Suc k) xs"
    using k by (simp add: ys_def list_update_append take_Suc_conv_app_nth flip: Cons_nth_drop_Suc)
  have IH: "for_each [0..<k]
           (\<lambda>i rs. case deref rs i of Inl e \<Rightarrow> Inl e | Inr r \<Rightarrow> Inr (rs[i := Some (g r)]))
           (map Some xs) = Inr (map Some ys)"
    using Suc.IH k by (simp add: ys_def)
  show ?case
    unfolding for_each_upt_Suc IH
    by (simp only: sum.case deref_Some [OF len] update_map_Some at upd)
qed

lemma set_max_path_length_eq:
  assumes "length xs = nat (sint (mNumThreads c))"
  shows "set_max_path_length c (map Some xs)
         = Inr (map Some (map (\<lambda>r. r\<lparr>rMaxPathLength := Some (mMaxPathLength c)\<rparr>) xs))"
  using slot_loop [of "length xs" xs "\<lambda>r. r\<lparr>rMaxPathLength := Some (mMaxPathLength c)\<rparr>"] assms
  by (simp add: set_max_path_length_def)

subsection \<open>The iteration loop and the merge loop\<close>

lemma instances_map_Some: "instances (map Some xs) = xs"
  by (induction xs) (simp_all add: instances_def)

lemma scheduled_0: "scheduled env 0 w = []"
  by (simp add: scheduled_def)

lemma scheduled_Suc:
  "scheduled env (Suc k) w =
     scheduled env k w @ (if omp_get_thread_num env k = w then [int k] else [])"
  by (simp add: scheduled_def)

lemma iterated_0: "iterated env 0 xs = xs"
  by (simp add: iterated_def scheduled_0 map_nth)

lemma length_iterated: "length (iterated env k xs) = length xs"
  by (simp add: iterated_def)

lemma iterated_Suc:
  fixes env :: "'scene extern" and xs :: "'scene AbstractRenderer list"
  assumes "omp_get_thread_num env k < length xs"
  shows "(iterated env k xs)[omp_get_thread_num env k :=
            RunIteration (iterated env k xs ! omp_get_thread_num env k) (int k)]
         = iterated env (Suc k) xs"
proof (rule nth_equalityI)
  show "length ((iterated env k xs)[omp_get_thread_num env k :=
            RunIteration (iterated env k xs ! omp_get_thread_num env k) (int k)]) = length (iterated env (Suc k) xs)"
    by (simp add: length_iterated)
next
  fix w
  assume "w < length ((iterated env k xs)[omp_get_thread_num env k :=
            RunIteration (iterated env k xs ! omp_get_thread_num env k) (int k)])"
  then have w: "w < length xs" by (simp add: length_iterated)
  show "(iterated env k xs)[omp_get_thread_num env k :=
            RunIteration (iterated env k xs ! omp_get_thread_num env k) (int k)] ! w = iterated env (Suc k) xs ! w"
  proof (cases "w = omp_get_thread_num env k")
    case True
    then show ?thesis
      using w by (simp add: iterated_def RunIteration_def scheduled_Suc del: upt_Suc)
  next
    case False
    then show ?thesis
      using w by (simp add: iterated_def scheduled_Suc del: upt_Suc)
  qed
qed

lemma dispatch_loop:
  fixes env :: "'scene extern" and xs :: "'scene AbstractRenderer list"
  assumes "\<forall>iter<k. omp_get_thread_num env iter < length xs"
  shows "for_each [0..<k]
       (\<lambda>iter rs.
          let threadId = omp_get_thread_num env iter in
          case deref rs threadId of
            Inl e \<Rightarrow> Inl e
          | Inr r \<Rightarrow> Inr (rs[threadId := Some (RunIteration r (int iter))]))
       (map Some xs) = Inr (map Some (iterated env k xs))"
  using assms
proof (induction k)
  case 0
  then show ?case by (simp add: iterated_0)
next
  case (Suc k)
  have t: "omp_get_thread_num env k < length (iterated env k xs)"
    using Suc.prems by (simp add: length_iterated)
  have IH: "for_each [0..<k]
       (\<lambda>iter rs.
          let threadId = omp_get_thread_num env iter in
          case deref rs threadId of
            Inl e \<Rightarrow> Inl e
          | Inr r \<Rightarrow> Inr (rs[threadId := Some (RunIteration r (int iter))]))
       (map Some xs) = Inr (map Some (iterated env k xs))"
    using Suc by simp
  show ?case
    unfolding for_each_upt_Suc IH
    using t iterated_Suc [of env k xs]
    by (simp only: sum.case Let_def deref_Some [OF t] update_map_Some length_iterated)
qed

lemma dispatch_eq:
  fixes env :: "'scene extern" and xs :: "'scene AbstractRenderer list"
  assumes "\<forall>iter<nat (sint iterations). omp_get_thread_num env iter < length xs"
  shows "dispatch env iterations (map Some xs) = Inr (map Some (iterated env (nat (sint iterations)) xs))"
  unfolding dispatch_def using assms by (rule dispatch_loop)


lemma merged_snoc:
  "merged env fb0 (U @ [r]) =
     (if U = [] then (GetFramebuffer env r, 1)
      else (Add (fst (merged env fb0 U)) (GetFramebuffer env r), Suc (length U)))"
  by (cases U) (simp_all add: merged_def)

lemma merged_snd: "snd (merged env fb0 U) = length U"
  by (cases U) (simp_all add: merged_def)

lemma merge_loop:
  assumes "k \<le> length xs"
  shows "for_each [0..<k] (merge_body env (map Some xs)) (fb0, 0)
         = Inr (merged env fb0 (filter WasUsed (take k xs)))"
  using assms
proof (induction k)
  case 0
  then show ?case by (simp add: merged_def)
next
  case (Suc k)
  have k: "k < length xs" using Suc.prems by simp
  define U where "U = filter WasUsed (take k xs)"
  have IH: "for_each [0..<k] (merge_body env (map Some xs)) (fb0, 0) = Inr (merged env fb0 U)"
    using Suc by (simp add: U_def)
  have step: "filter WasUsed (take (Suc k) xs) = U @ (if WasUsed (xs ! k) then [xs ! k] else [])"
    using k by (simp add: U_def take_Suc_conv_app_nth)
  have body: "merge_body env (map Some xs) k (merged env fb0 U)
      = Inr (merged env fb0 (U @ (if WasUsed (xs ! k) then [xs ! k] else [])))"
  proof (cases "WasUsed (xs ! k)")
    case False
    then show ?thesis
      using k by (cases "merged env fb0 U") (simp add: merge_body_def deref_Some)
  next
    case True
    obtain fb n where m: "merged env fb0 U = (fb, n)" by (cases "merged env fb0 U")
    have n: "n = length U" using merged_snd [of env fb0 U] m by simp
    show ?thesis
      using k True m n by (simp add: merge_body_def deref_Some merged_snoc)
  qed
  show ?case
    unfolding for_each_upt_Suc IH step using body by simp
qed

lemma merge_eq:
  assumes "length xs = nat (sint (mNumThreads c))"
  shows "merge env c (map Some xs) = Inr (merged env (mFramebuffer c) (filter WasUsed xs))"
  using merge_loop [of "length xs" xs env "mFramebuffer c"] assms
  by (simp add: merge_def)

subsection \<open>Construction\<close>

lemma new_array_eq:
  "0 \<le> sint n \<Longrightarrow> new_array n = Inr (replicate (nat (sint n)) None)"
  by (simp add: new_array_def)

lemma construct_known:
  assumes "known_algorithm (mAlgorithm c)" and "length rs = nat (sint (mNumThreads c))"
  shows "\<exists>args. construct_renderers c rs =
            (map (\<lambda>i. Some (new (args i))) [0..<nat (sint (mNumThreads c))],
             if mAlgorithm c = kEyeLight then 1 else mIterations c)
          \<and> (\<forall>i. seed_of (args i) =
                (if mAlgorithm c = kEyeLight then None else Some (mBaseSeed c + of_nat i)))"
proof -
  from assms(1) have "mAlgorithm c \<in> {0, 1, 2, 3, 4, 5, 6}"
    by (auto simp: known_algorithm_def kAlgorithmMax_def)
  then consider "mAlgorithm c = 0" | "mAlgorithm c = 1" | "mAlgorithm c = 2" | "mAlgorithm c = 3"
    | "mAlgorithm c = 4" | "mAlgorithm c = 5" | "mAlgorithm c = 6" by auto
  then show ?thesis
  proof cases
    case 1
    then show ?thesis
      using assms(2)
      by (intro exI [of _ "\<lambda>i. EyeLight (mScene c)"])
         (simp add: construct_renderers_def construct_each_eq kEyeLight_def)
  next
    case 2
    then show ?thesis
      using assms(2)
      by (intro exI [of _ "\<lambda>i. PathTracer (mScene c) (mBaseSeed c + of_nat i)"])
         (simp add: construct_renderers_def construct_each_eq kEyeLight_def kPathTracing_def)
  next
    case 3
    then show ?thesis
      using assms(2)
      by (intro exI [of _ "\<lambda>i. VertexCM (mScene c) kLightTrace (mBaseSeed c + of_nat i)"])
         (simp add: construct_renderers_def construct_each_eq kEyeLight_def kPathTracing_def kLightTracing_def)
  next
    case 4
    then show ?thesis
      using assms(2)
      by (intro exI [of _ "\<lambda>i. VertexCM (mScene c) kPpm (mBaseSeed c + of_nat i)"])
         (simp add: construct_renderers_def construct_each_eq kEyeLight_def kPathTracing_def kLightTracing_def
            kProgressivePhotonMapping_def)
  next
    case 5
    then show ?thesis
      using assms(2)
      by (intro exI [of _ "\<lambda>i. VertexCM (mScene c) kBpm (mBaseSeed c + of_nat i)"])
         (simp add: construct_renderers_def construct_each_eq kEyeLight_def kPathTracing_def kLightTracing_def
            kProgressivePhotonMapping_def kBidirectionalPhotonMapping_def)
  next
    case 6
    then show ?thesis
      using assms(2)
      by (intro exI [of _ "\<lambda>i. VertexCM (mScene c) kBpt (mBaseSeed c + of_nat i)"])
         (simp add: construct_renderers_def construct_each_eq kEyeLight_def kPathTracing_def kLightTracing_def
            kProgressivePhotonMapping_def kBidirectionalPhotonMapping_def
            kBidirectionalPathTracing_def)
  next
    case 7
    then show ?thesis
      using assms(2)
      by (intro exI [of _ "\<lambda>i. VertexCM (mScene c) kVcm (mBaseSeed c + of_nat i)"])
         (simp add: construct_renderers_def construct_each_eq kEyeLight_def kPathTracing_def kLightTracing_def
            kProgressivePhotonMapping_def kBidirectionalPhotonMapping_def
            kBidirectionalPathTracing_def kVertexConnectionMerging_def)
  qed
qed

lemma construct_unknown:
  assumes "\<not> known_algorithm (mAlgorithm c)"
  shows "construct_renderers c rs = (rs, mIterations c)"
  using assms
  by (auto simp add: construct_renderers_def Let_def known_algorithm_def kAlgorithmMax_def kEyeLight_def kPathTracing_def
      kLightTracing_def kProgressivePhotonMapping_def kBidirectionalPhotonMapping_def
      kBidirectionalPathTracing_def kVertexConnectionMerging_def)

lemma prepared_known:
  assumes "known_algorithm (mAlgorithm c)" and "0 \<le> sint (mNumThreads c)"
  shows "\<exists>args. prepared c =
            Inr (map (\<lambda>i. Some (ready c (args i))) [0..<nat (sint (mNumThreads c))],
                 if mAlgorithm c = kEyeLight then 1 else mIterations c)
          \<and> (\<forall>i. seed_of (args i) =
                (if mAlgorithm c = kEyeLight then None else Some (mBaseSeed c + of_nat i)))"
proof -
  let ?n = "nat (sint (mNumThreads c))"
  obtain args where
    c: "construct_renderers c (replicate ?n None) =
            (map (\<lambda>i. Some (new (args i))) [0..<?n], if mAlgorithm c = kEyeLight then 1 else mIterations c)"
    and s: "\<forall>i. seed_of (args i) =
                (if mAlgorithm c = kEyeLight then None else Some (mBaseSeed c + of_nat i))"
    using construct_known [OF assms(1), of "replicate ?n None"] by auto
  have m: "map (\<lambda>i. Some (new (args i))) [0..<?n] = map Some (map (\<lambda>i. new (args i)) [0..<?n])"
    by simp
  have "set_max_path_length c (map (\<lambda>i. Some (new (args i))) [0..<?n])
        = Inr (map (\<lambda>i. Some (ready c (args i))) [0..<?n])"
    unfolding m by (subst set_max_path_length_eq) (simp_all add: ready_def new_def)
  then have "prepared c =
            Inr (map (\<lambda>i. Some (ready c (args i))) [0..<?n],
                 if mAlgorithm c = kEyeLight then 1 else mIterations c)"
    using c assms(2) by (simp add: prepared_def new_array_eq)
  with s show ?thesis by blast
qed

lemma set_max_unassigned:
  assumes "0 < nat (sint (mNumThreads c))"
  shows "set_max_path_length c (replicate (nat (sint (mNumThreads c))) None) = Inl invalid_pointer"
proof -
  obtain k where k: "nat (sint (mNumThreads c)) = Suc k"
    using assms by (cases "nat (sint (mNumThreads c))") auto
  show ?thesis
    by (simp add: set_max_path_length_def k upt_rec [of 0] deref_def)
qed

lemma prepared_shape:
  assumes "prepared c = Inr (rs, its)"
  shows "\<exists>xs. rs = map Some xs \<and> length xs = nat (sint (mNumThreads c))
           \<and> (\<forall>r\<in>set xs. rMaxPathLength r = Some (mMaxPathLength c) \<and> runs r = [])"
proof (cases "known_algorithm (mAlgorithm c)")
  case True
  from assms have n: "0 \<le> sint (mNumThreads c)"
    by (auto simp: prepared_def new_array_def split: sum.splits if_splits)
  from prepared_known [OF True n] assms obtain args where
    "rs = map (\<lambda>i. Some (ready c (args i))) [0..<nat (sint (mNumThreads c))]" by auto
  then have "rs = map Some (map (\<lambda>i. ready c (args i)) [0..<nat (sint (mNumThreads c))])" by simp
  then show ?thesis
    by (intro exI [of _ "map (\<lambda>i. ready c (args i)) [0..<nat (sint (mNumThreads c))]"])
       (auto simp: ready_def)
next
  case False
  from assms have n: "0 \<le> sint (mNumThreads c)"
    by (auto simp: prepared_def new_array_def split: sum.splits if_splits)
  have p: "prepared c =
      (case set_max_path_length c (replicate (nat (sint (mNumThreads c))) None) of
         Inl e \<Rightarrow> Inl e | Inr renderers \<Rightarrow> Inr (renderers, mIterations c))"
    using n by (simp add: prepared_def new_array_eq construct_unknown [OF False])
  have z: "nat (sint (mNumThreads c)) = 0"
  proof (rule ccontr)
    assume "nat (sint (mNumThreads c)) \<noteq> 0"
    then have "0 < nat (sint (mNumThreads c))" by simp
    from set_max_unassigned [OF this] p assms show False by simp
  qed
  with p assms have "rs = []" by (simp add: set_max_path_length_def)
  with z show ?thesis by simp
qed

subsection \<open>render\<close>

lemma dispatch_loop_Inr:
  fixes env :: "'scene extern" and xs :: "'scene AbstractRenderer list"
  assumes "for_each [0..<k]
       (\<lambda>iter rs.
          let threadId = omp_get_thread_num env iter in
          case deref rs threadId of
            Inl e \<Rightarrow> Inl e
          | Inr r \<Rightarrow> Inr (rs[threadId := Some (RunIteration r (int iter))]))
       (map Some xs) = Inr rs'"
  shows "\<forall>iter<k. omp_get_thread_num env iter < length xs"
  using assms
proof (induction k arbitrary: rs')
  case 0
  then show ?case by simp
next
  case (Suc k)
  let ?body = "\<lambda>iter rs.
          let threadId = omp_get_thread_num env iter in
          case deref rs threadId of
            Inl e \<Rightarrow> Inl e
          | Inr r \<Rightarrow> Inr (rs[threadId := Some (RunIteration r (int iter))])"
  from Suc.prems obtain mid where
    mid: "for_each [0..<k] ?body (map Some xs) = Inr mid" and last: "?body k mid = Inr rs'"
    unfolding for_each_upt_Suc by (auto split: sum.splits)
  from Suc.IH [OF mid] have v: "\<forall>iter<k. omp_get_thread_num env iter < length xs" .
  from dispatch_loop [OF v] mid have m: "mid = map Some (iterated env k xs)" by simp
  from last have "omp_get_thread_num env k < length mid"
    by (auto simp: Let_def deref_def split: sum.splits if_splits)
  then have "omp_get_thread_num env k < length xs" by (simp add: m length_iterated)
  with v show ?case by (auto simp: less_Suc_eq)
qed

lemma dispatch_Inr:
  fixes env :: "'scene extern" and xs :: "'scene AbstractRenderer list"
  assumes "dispatch env iterations (map Some xs) = Inr rs'"
  shows "(\<forall>iter<nat (sint iterations). omp_get_thread_num env iter < length xs)
         \<and> rs' = map Some (iterated env (nat (sint iterations)) xs)"
proof -
  from assms have v: "\<forall>iter<nat (sint iterations). omp_get_thread_num env iter < length xs"
    unfolding dispatch_def by (rule dispatch_loop_Inr)
  from dispatch_eq [OF v] assms show ?thesis using v by simp
qed

lemma dispatched_shape:
  assumes "dispatched env c = Inr rs"
  shows "\<exists>ys. rs = map Some ys \<and> length ys = nat (sint (mNumThreads c))"
proof -
  from assms obtain rs0 its where p: "prepared c = Inr (rs0, its)"
    and d: "dispatch env its rs0 = Inr rs"
    by (auto simp: dispatched_def split: sum.splits)
  from prepared_shape [OF p] obtain xs where
    xs: "rs0 = map Some xs" "length xs = nat (sint (mNumThreads c))" by auto
  from dispatch_Inr [of env its xs rs] d xs
  have "rs = map Some (iterated env (nat (sint its)) xs)" by simp
  with xs show ?thesis by (auto simp: length_iterated)
qed

lemma clock_diff:
  "clock env [Construction, Dispatch] - clock env [Construction] = int (ticks env Dispatch)"
  by (simp add: clock_def)

lemma render_dispatched:
  assumes "dispatched env c = Inr rs"
  shows "render env c =
     Inr (Scale (fst (merged env (mFramebuffer c) (used_instances rs)))
            (fdiv (Fin 1) (float_of_nat (length (used_instances rs)))),
          elapsed env)"
proof -
  from assms obtain rs0 its where p: "prepared c = Inr (rs0, its)"
    and d: "dispatch env its rs0 = Inr rs"
    by (auto simp: dispatched_def split: sum.splits)
  from dispatched_shape [OF assms] obtain ys where
    ys: "rs = map Some ys" "length ys = nat (sint (mNumThreads c))" by auto
  have u: "used_instances (map Some ys) = filter WasUsed ys"
    by (simp add: used_instances_def instances_map_Some)
  have "merge env c (map Some ys) = Inr (merged env (mFramebuffer c) (filter WasUsed ys))"
    by (rule merge_eq) (simp add: ys(2))
  then have m: "merge env c rs = Inr (merged env (mFramebuffer c) (used_instances rs))"
    by (simp add: u ys(1))
  obtain fb n where fn: "merged env (mFramebuffer c) (used_instances rs) = (fb, n)"
    by (cases "merged env (mFramebuffer c) (used_instances rs)")
  have n: "n = length (used_instances rs)"
    using merged_snd [of env "mFramebuffer c" "used_instances rs"] fn by simp
  show ?thesis
    using p d m fn n by (simp add: render_def Let_def clock_diff elapsed_def)
qed

lemma render_faults:
  assumes "dispatched env c = Inl e"
  shows "render env c = Inl e"
  using assms by (auto simp: render_def dispatched_def Let_def split: sum.splits)

lemma fdiv_one_zero: "fdiv (Fin 1) (float_of_nat 0) = PInf"
  by (simp add: float_of_nat_def inf_of_sign_def)

subsection \<open>Evaluation of concrete runs\<close>

lemmas run_simps =
  dispatched_def prepared_def new_array_def construct_renderers_def construct_each_def
  set_max_path_length_def dispatch_def deref_def new_def RunIteration_def merge_def merge_body_def
  render_def WasUsed_def Add_def Scale_def clock_def float_of_int_def float_of_nat_def inf_of_sign_def
  kEyeLight_def kPathTracing_def kLightTracing_def kProgressivePhotonMapping_def
  kBidirectionalPhotonMapping_def kBidirectionalPathTracing_def kVertexConnectionMerging_def
  instances_def used_instances_def elapsed_def
  numeral_2_eq_2 numeral_3_eq_3 Let_def

lemma render_Inr_dispatched:
  assumes "render env c = Inr x"
  obtains rs where "dispatched env c = Inr rs"
proof (cases "dispatched env c")
  case (Inl e)
  from render_faults [OF this] assms show ?thesis by simp
next
  case (Inr rs)
  then show ?thesis by (rule that)
qed

lemma dispatch_no_iterations:
  "sint its \<le> 0 \<Longrightarrow> dispatch env its rs = Inr rs"
  by (simp add: dispatch_def)

subsection \<open>Seeds\<close>

lemma threads_bound: "nat (sint (n :: int32)) < 2 ^ 31"
  using sint_lt [of n] by simp

lemma seed_inj:
  fixes base :: int32
  assumes "i < 2 ^ 31" and "j < 2 ^ 31" and "base + of_nat i = base + of_nat j"
  shows "i = j"
proof -
  from assms(3) have "(of_nat i :: int32) = of_nat j" by simp
  then have "take_bit 32 i = take_bit 32 j"
    by (simp add: word_of_nat_eq_iff)
  moreover have "i < 2 ^ 32" "j < 2 ^ 32" using assms(1,2) by simp_all
  ultimately show ?thesis by (simp add: take_bit_nat_eq_self)
qed

lemma seeds_distinct:
  fixes base :: int32
  shows "distinct (map (\<lambda>i. Some (base + of_nat i)) [0..<nat (sint (n :: int32))])"
proof -
  have "inj_on (\<lambda>i. Some (base + of_nat i)) (set [0..<nat (sint n)])"
  proof (rule inj_onI)
    fix i j
    assume "i \<in> set [0..<nat (sint n)]" "j \<in> set [0..<nat (sint n)]"
      and e: "Some (base + of_nat i) = Some (base + of_nat j)"
    then have ij: "i < 2 ^ 31" "j < 2 ^ 31" using threads_bound [of n] by auto
    from e have "base + of_nat i = base + of_nat j" by simp
    with ij show "i = j" by (rule seed_inj)
  qed
  then show ?thesis by (simp add: distinct_map)
qed

lemma sint_seed:
  fixes base :: int32
  assumes "sint base + int i < 2 ^ 31" and "i < 2 ^ 31"
  shows "sint (base + of_nat i) = sint base + int i"
proof -
  have i: "int i < 2 ^ 31" using assms(2) by simp
  have "sint (of_nat i :: int32) = int i"
    using i by (simp add: signed_of_nat signed_take_bit_int_eq_self)
  moreover have "- (2 ^ 31) \<le> sint base + int i" using sint_ge [of base] by simp
  ultimately show ?thesis
    using assms by (simp add: sint_word_add signed_take_bit_int_eq_self)
qed

lemma assigned_seeds_known:
  assumes "known_algorithm (mAlgorithm c)" and "0 \<le> sint (mNumThreads c)"
  shows "assigned_seeds c =
           map (\<lambda>i. if mAlgorithm c = kEyeLight then None else Some (mBaseSeed c + of_nat i))
             [0..<nat (sint (mNumThreads c))]"
proof -
  from prepared_known [OF assms] obtain args where
    p: "prepared c = Inr (map (\<lambda>i. Some (ready c (args i))) [0..<nat (sint (mNumThreads c))],
                 if mAlgorithm c = kEyeLight then 1 else mIterations c)"
    and s: "\<forall>i. seed_of (args i) =
                (if mAlgorithm c = kEyeLight then None else Some (mBaseSeed c + of_nat i))"
    by blast
  have "map (\<lambda>i. Some (ready c (args i))) [0..<nat (sint (mNumThreads c))]
        = map Some (map (\<lambda>i. ready c (args i)) [0..<nat (sint (mNumThreads c))])"
    by simp
  then have "instances (map (\<lambda>i. Some (ready c (args i))) [0..<nat (sint (mNumThreads c))])
        = map (\<lambda>i. ready c (args i)) [0..<nat (sint (mNumThreads c))]"
    by (simp only: instances_map_Some)
  then show ?thesis
    using s by (simp add: assigned_seeds_def p ready_def)
qed

subsection \<open>The renderers after dispatch\<close>

lemma iterated_nth:
  "w < length xs \<Longrightarrow>
   iterated env k xs ! w = (xs ! w)\<lparr>runs := runs (xs ! w) @ scheduled env k w\<rparr>"
  by (simp add: iterated_def)

lemma iterated_bound:
  assumes "\<forall>r\<in>set xs. rMaxPathLength r = v"
  shows "\<forall>r\<in>set (iterated env k xs). rMaxPathLength r = v"
  using assms by (auto simp: iterated_def)

lemma dispatched_Inr:
  fixes env :: "'scene extern"
  assumes "dispatched env c = Inr rs"
  shows "\<exists>xs its. prepared c = Inr (map Some xs, its)
    \<and> length xs = nat (sint (mNumThreads c))
    \<and> (\<forall>r\<in>set xs. rMaxPathLength r = Some (mMaxPathLength c) \<and> runs r = [])
    \<and> (\<forall>iter<nat (sint its). omp_get_thread_num env iter < length xs)
    \<and> rs = map Some (iterated env (nat (sint its)) xs)"
proof -
  from assms obtain rs0 its where p: "prepared c = Inr (rs0, its)"
    and d: "dispatch env its rs0 = Inr rs"
    by (auto simp: dispatched_def split: sum.splits)
  from prepared_shape [OF p] obtain xs where
    xs: "rs0 = map Some xs" "length xs = nat (sint (mNumThreads c))"
      "\<forall>r\<in>set xs. rMaxPathLength r = Some (mMaxPathLength c) \<and> runs r = []" by auto
  from dispatch_Inr [of env its xs rs] d xs(1)
  have "\<forall>iter<nat (sint its). omp_get_thread_num env iter < length xs"
    and "rs = map Some (iterated env (nat (sint its)) xs)" by simp_all
  with p xs show ?thesis by (intro exI [of _ xs] exI [of _ its]) simp
qed

lemma fmul_one: "fmul x (Fin 1) = x"
  by (cases x) (simp_all add: inf_of_sign_def)

lemma Scale_one: "Scale fb (Fin 1) = fb"
  by (simp add: Scale_def fmul_one)

lemma prepared_eye_light:
  assumes "mAlgorithm c = kEyeLight" and "0 \<le> sint (mNumThreads c)"
  shows "prepared c =
           Inr (map Some (replicate (nat (sint (mNumThreads c))) (ready c (EyeLight (mScene c)))), 1)"
proof -
  let ?n = "nat (sint (mNumThreads c))"
  have c: "construct_renderers c (replicate ?n None)
           = (map Some (replicate ?n (new (EyeLight (mScene c)))), 1)"
    using assms(1) by (simp add: construct_renderers_def construct_each_eq map_replicate_const)
  have s: "set_max_path_length c (map Some (replicate ?n (new (EyeLight (mScene c)))))
           = Inr (map Some (replicate ?n (ready c (EyeLight (mScene c)))))"
    by (subst set_max_path_length_eq) (simp_all add: ready_def new_def)
  show ?thesis
    unfolding prepared_def new_array_eq [OF assms(2)]
    by (simp only: c s sum.case prod.case)
qed

lemma iterated_one:
  fixes env :: "'scene extern" and xs :: "'scene AbstractRenderer list"
  assumes "omp_get_thread_num env 0 < length xs"
  shows "iterated env (Suc 0) xs
         = xs[omp_get_thread_num env 0 := RunIteration (xs ! omp_get_thread_num env 0) 0]"
  using iterated_Suc [of env 0 xs] assms by (simp add: iterated_0)

lemma filter_replicate_update:
  assumes "t < n" and "\<not> P x" and "P y"
  shows "filter P ((replicate n x)[t := y]) = [y]"
proof -
  have "(replicate n x)[t := y] = replicate t x @ y # replicate (n - Suc t) x"
    using assms(1) by (simp add: upd_conv_take_nth_drop)
  then show ?thesis using assms(2,3) by simp
qed

lemma concat_runs_replicate_update:
  assumes "t < n" and "runs x = []"
  shows "concat (map runs ((replicate n x)[t := y])) = runs y"
proof -
  have "(replicate n x)[t := y] = replicate t x @ y # replicate (n - Suc t) x"
    using assms(1) by (simp add: upd_conv_take_nth_drop)
  then show ?thesis using assms(2) by simp
qed

subsection \<open>Counting the scheduled iterations\<close>

lemma scheduled_set: "set (scheduled env k w) \<subseteq> int ` {0..<k}"
  by (auto simp: scheduled_def)

lemma count_scheduled:
  "iter < k \<Longrightarrow>
   count_list (scheduled env k w) (int iter) = (if omp_get_thread_num env iter = w then 1 else 0)"
proof (induction k)
  case 0
  then show ?case by simp
next
  case (Suc k)
  show ?case
  proof (cases "iter = k")
    case True
    have "int k \<notin> set (scheduled env k w)" using scheduled_set [of env k w] by auto
    then have "count_list (scheduled env k w) (int k) = 0" by (simp add: count_list_0_iff)
    then show ?thesis by (simp add: True scheduled_Suc)
  next
    case False
    with Suc.prems have "iter < k" by simp
    from Suc.IH [OF this] False show ?thesis by (simp add: scheduled_Suc)
  qed
qed

lemma sum_list_indicator:
  "t < W \<Longrightarrow> sum_list (map (\<lambda>w. if t = w then 1 else 0) [0..<W]) = (1 :: nat)"
  by (simp add: interv_sum_list_conv_sum_set_nat)

lemma total_scheduled:
  assumes "\<forall>iter<k. omp_get_thread_num env iter < W"
  shows "sum_list (map (\<lambda>w. length (scheduled env k w)) [0..<W]) = k"
  using assms
proof (induction k)
  case 0
  then show ?case by (simp add: scheduled_0)
next
  case (Suc k)
  have t: "omp_get_thread_num env k < W" using Suc.prems by simp
  have "sum_list (map (\<lambda>w. length (scheduled env (Suc k) w)) [0..<W])
        = sum_list (map (\<lambda>w. length (scheduled env k w)
                               + (if omp_get_thread_num env k = w then 1 else 0)) [0..<W])"
    by (intro arg_cong [of _ _ sum_list] map_cong) (simp_all add: scheduled_Suc)
  also have "\<dots> = sum_list (map (\<lambda>w. length (scheduled env k w)) [0..<W])
                   + sum_list (map (\<lambda>w. if omp_get_thread_num env k = w then 1 else 0) [0..<W])"
    by (simp add: sum_list_addf)
  also have "\<dots> = k + 1"
    using Suc.IH Suc.prems sum_list_indicator [OF t] by simp
  finally show ?case by simp
qed

subsection \<open>Selectors and the scene table\<close>

lemma selector_cases:
  fixes a :: int
  assumes "0 \<le> a" and "a \<le> 7"
  obtains "a = 0" | "a = 1" | "a = 2" | "a = 3" | "a = 4" | "a = 5" | "a = 6" | "a = 7"
  using assms by arith

lemma sceneConfigCount_eq: "sceneConfigCount Scene = 12"
  by (simp add: sceneConfigCount_def sceneConfigs_def)

lemma smod_below: "x smod sceneConfigCount Scene < sceneConfigCount Scene"
proof -
  have "\<bar>x\<bar> mod 12 < 12" by simp
  moreover have "sgn x * (\<bar>x\<bar> mod 12) \<le> \<bar>x\<bar> mod 12"
    by (cases "x < 0"; cases "x = 0") (simp_all add: sgn_if)
  ultimately show ?thesis
    by (simp add: sceneConfigCount_eq smod_int_alt_def)
qed

lemma upt_24: "[0..<24] = [0,1,2,3,4,5,6,7,8,9,10,11,12,13,14,15,16,17,18,19,20,21,22,23]"
  by (simp add: upt_rec)

lemma upt_12: "[0..<12] = [0,1,2,3,4,5,6,7,8,9,10,11]"
  by (simp add: upt_rec)

subsection \<open>The aggregate elementwise, and a loop of one iteration\<close>

lemma length_Add: "length (Add a b) = min (length a) (length b)"
  by (simp add: Add_def)

lemma Add_nth:
  "j < length a \<Longrightarrow> j < length b \<Longrightarrow> Add a b ! j = fadd (a ! j) (b ! j)"
  by (simp add: Add_def)

lemma foldl_Add_elementwise:
  assumes "length b = m" and "\<forall>v\<in>set bs. length v = m"
  shows "foldl Add b bs = map (\<lambda>j. foldl fadd (b ! j) (map (\<lambda>v. v ! j) bs)) [0..<m]"
  using assms
proof (induction bs arbitrary: b)
  case Nil
  then show ?case using map_nth [of b] by simp
next
  case (Cons v vs)
  have len: "length (Add b v) = m" using Cons.prems by (simp add: length_Add)
  have "foldl Add (Add b v) vs
        = map (\<lambda>j. foldl fadd (Add b v ! j) (map (\<lambda>v. v ! j) vs)) [0..<m]"
    using Cons.IH [OF len] Cons.prems by simp
  also have "\<dots> = map (\<lambda>j. foldl fadd (b ! j) (map (\<lambda>v. v ! j) (v # vs))) [0..<m]"
    using Cons.prems by (intro map_cong) (simp_all add: Add_nth)
  finally show ?case by simp
qed

lemma merged_Cons:
  "map (GetFramebuffer env) U = first # rest \<Longrightarrow>
   merged env fb0 U = (foldl Add first rest, length U)"
  by (cases U) (auto simp: merged_def)

lemma dispatch_one:
  "dispatch env 1 rs =
     (case deref rs (omp_get_thread_num env 0) of
        Inl e \<Rightarrow> Inl e
      | Inr r \<Rightarrow> Inr (rs[omp_get_thread_num env 0 := Some (RunIteration r 0)]))"
  by (simp add: dispatch_def Let_def split: sum.splits)

lemma dispatched_eye_light:
  fixes env :: "'scene extern" and c :: "'scene Config"
  assumes "mAlgorithm c = kEyeLight" and "0 < sint (mNumThreads c)"
    and "omp_get_thread_num env 0 < nat (sint (mNumThreads c))"
  shows "dispatched env c =
           Inr (map Some ((replicate (nat (sint (mNumThreads c))) (ready c (EyeLight (mScene c))))
                  [omp_get_thread_num env 0 := RunIteration (ready c (EyeLight (mScene c))) 0]))"
proof -
  let ?n = "nat (sint (mNumThreads c))"
  let ?t = "omp_get_thread_num env 0"
  let ?x = "ready c (EyeLight (mScene c))"
  from assms(2) have n: "0 \<le> sint (mNumThreads c)" by simp
  note p = prepared_eye_light [OF assms(1) n]
  have "deref (map Some (replicate ?n ?x)) ?t = Inr ?x"
    using assms(3) by (subst deref_Some) simp_all
  then have "dispatch env 1 (map Some (replicate ?n ?x))
             = Inr ((map Some (replicate ?n ?x))[?t := Some (RunIteration ?x 0)])"
    by (simp only: dispatch_one sum.case)
  then have "dispatch env 1 (map Some (replicate ?n ?x))
             = Inr (map Some ((replicate ?n ?x)[?t := RunIteration ?x 0]))"
    by (simp only: update_map_Some)
  then show ?thesis
    unfolding dispatched_def p by (simp only: sum.case prod.case)
qed

section \<open>The claims\<close>

text \<open>
  C1. When at least one renderer reports \<^verbatim>\<open>WasUsed\<close> after the iteration loop,
  \<^verbatim>\<open>render\<close> leaves in the caller's framebuffer the aggregate of the used renderers'
  buffers and of no other: the first used buffer replaces the aggregate, every further
  used buffer is added to it with \<^verbatim>\<open>Add\<close>, and the result is scaled with \<^verbatim>\<open>Scale\<close> by
  the quotient \<^verbatim>\<open>1.f / usedRenderers\<close>, where \<^verbatim>\<open>usedRenderers\<close> is the number \<open>|U|\<close> of
  used renderers, not the number of iterations. For buffers of one length \<open>m\<close>,
  element \<open>j\<close> is the float sum, taken in slot order, of the used buffers' elements
  \<open>j\<close>, multiplied by that quotient. The statement names the operations and their
  operands; it holds whatever the float operations return.
\<close>

theorem aggregate_is_scaled_sum_of_used_buffers:
  assumes "dispatched env c = Inr rs"
    and "map (GetFramebuffer env) (used_instances rs) = first # rest"
  shows "render env c =
           Inr (Scale (foldl Add first rest)
                  (fdiv (Fin 1) (float_of_nat (length (used_instances rs)))),
                elapsed env)
         \<and> length (used_instances rs) = Suc (length rest)
         \<and> (length first = m \<and> (\<forall>b\<in>set rest. length b = m)
            \<longrightarrow> render env c =
                 Inr (map (\<lambda>j. fmul (foldl fadd (first ! j) (map (\<lambda>b. b ! j) rest))
                                  (fdiv (Fin 1) (float_of_nat (length (used_instances rs)))))
                        [0..<m],
                      elapsed env))"
proof -
  have r: "render env c =
           Inr (Scale (foldl Add first rest)
                  (fdiv (Fin 1) (float_of_nat (length (used_instances rs)))),
                elapsed env)"
    using render_dispatched [OF assms(1)] merged_Cons [OF assms(2)] by simp
  have n: "length (used_instances rs) = Suc (length rest)"
    using arg_cong [OF assms(2), of length] by simp
  have "render env c =
          Inr (map (\<lambda>j. fmul (foldl fadd (first ! j) (map (\<lambda>b. b ! j) rest))
                           (fdiv (Fin 1) (float_of_nat (length (used_instances rs)))))
                 [0..<m],
               elapsed env)"
    if "length first = m" and "\<forall>b\<in>set rest. length b = m"
    unfolding r foldl_Add_elementwise [OF that] by (simp add: Scale_def)
  with r n show ?thesis by blast
qed

theorem aggregate_is_scaled_sum_of_used_buffers_witness:
  "dispatched two_threads path_tracing_run =
     Inr [Some \<lparr>constructed = PathTracer () 1000, rMaxPathLength = Some 10, runs = [0, 2]\<rparr>,
          Some \<lparr>constructed = PathTracer () 1001, rMaxPathLength = Some 10, runs = [1]\<rparr>]
   \<and> map (GetFramebuffer two_threads)
        (used_instances
          [Some \<lparr>constructed = PathTracer () 1000, rMaxPathLength = Some 10, runs = [0, 2]\<rparr>,
           Some \<lparr>constructed = PathTracer () 1001, rMaxPathLength = Some 10, runs = [1]\<rparr>])
      = [Fin 2, Fin 4] # [[Fin 6, Fin 0]]
   \<and> fdiv (Fin 1) (float_of_nat 2) = Fin (1 / 2)
   \<and> render two_threads path_tracing_run = Inr ([Fin 4, Fin 2], Fin 3)"
proof -
  let ?rs = "[Some \<lparr>constructed = PathTracer () 1000, rMaxPathLength = Some 10, runs = [0, 2]\<rparr>,
          Some \<lparr>constructed = PathTracer () (1001 :: int32), rMaxPathLength = Some 10, runs = [1]\<rparr>]"
  have d: "dispatched two_threads path_tracing_run = Inr ?rs"
    by (simp add: run_simps two_threads_def path_tracing_run_def)
  have b: "map (GetFramebuffer two_threads) (used_instances ?rs) = [Fin 2, Fin 4] # [[Fin 6, Fin 0]]"
    by (simp add: run_simps two_threads_def)
  have q: "fdiv (Fin 1) (float_of_nat 2) = Fin (1 / 2)"
    by (simp add: float_of_nat_def)
  have l: "length [Fin 2, Fin 4] = 2 \<and> (\<forall>b\<in>set [[Fin 6, Fin 0]]. length b = 2)" by simp
  from aggregate_is_scaled_sum_of_used_buffers [OF d b, of 2] l
  have n: "length (used_instances ?rs) = Suc (length [[Fin 6, Fin 0]])"
    and "render two_threads path_tracing_run =
      Inr (map (\<lambda>j. fmul (foldl fadd ([Fin 2, Fin 4] ! j) (map (\<lambda>b. b ! j) [[Fin 6, Fin 0]]))
                       (fdiv (Fin 1) (float_of_nat (length (used_instances ?rs)))))
             [0..<2], elapsed two_threads)"
    by blast+
  then have "render two_threads path_tracing_run = Inr ([Fin 4, Fin 2], Fin 3)"
    by (simp add: elapsed_def float_of_int_def float_of_nat_def two_threads_def numeral_2_eq_2)
  with d b q show ?thesis by blast
qed

text \<open>
  C2, as stated, fails: with an iteration budget of 0 no renderer is used, and
  \<^verbatim>\<open>render\<close> returns all the same. It divides \<^verbatim>\<open>1.f\<close> by zero and scales the buffer
  the caller passed in, \<open>[9, 0]\<close>, by the resulting infinity.
\<close>

theorem zero_iterations_returns_a_buffer:
  "dispatched two_threads no_iterations_run =
     Inr [Some \<lparr>constructed = PathTracer () 1000, rMaxPathLength = Some 10, runs = []\<rparr>,
          Some \<lparr>constructed = PathTracer () 1001, rMaxPathLength = Some 10, runs = []\<rparr>]
   \<and> render two_threads no_iterations_run = Inr ([PInf, NaN], Fin 3)"
  by (simp add: run_simps two_threads_def path_tracing_run_def no_iterations_run_def)

text \<open>
  C2, amended. When no renderer was used, in particular when the local \<^verbatim>\<open>iterations\<close>
  is 0 or negative, \<^verbatim>\<open>render\<close> raises no error: it returns the elapsed time and the
  caller's framebuffer, no partial buffer extracted into it, scaled by
  \<^verbatim>\<open>1.f / 0\<close>, which is \<open>+\<infinity>\<close>.
\<close>

theorem no_used_renderer_no_error:
  "(dispatched env c = Inr rs \<and> used_instances rs = []
      \<longrightarrow> render env c = Inr (Scale (mFramebuffer c) PInf, elapsed env))
   \<and> (prepared c = Inr (rs0, its) \<and> sint its \<le> 0
      \<longrightarrow> render env c = Inr (Scale (mFramebuffer c) PInf, elapsed env))"
proof -
  have a: "render env c = Inr (Scale (mFramebuffer c) PInf, elapsed env)"
    if "dispatched env c = Inr rs" "used_instances rs = []" for rs
    using render_dispatched [OF that(1)] that(2)
    by (simp add: merged_def fdiv_one_zero)
  have b: "render env c = Inr (Scale (mFramebuffer c) PInf, elapsed env)"
    if p: "prepared c = Inr (rs0, its)" and i: "sint its \<le> 0"
  proof -
    from prepared_shape [OF p] obtain xs where
      xs: "rs0 = map Some xs" "\<forall>r\<in>set xs. rMaxPathLength r = Some (mMaxPathLength c) \<and> runs r = []"
      by auto
    have d: "dispatched env c = Inr rs0"
      using p i by (simp add: dispatched_def dispatch_no_iterations)
    have "filter WasUsed xs = []"
      using xs(2) by (auto simp: WasUsed_def filter_empty_conv)
    then have "used_instances rs0 = []"
      by (simp add: used_instances_def xs(1) instances_map_Some)
    with d show ?thesis by (rule a)
  qed
  from a b show ?thesis by blast
qed

theorem no_used_renderer_no_error_witness:
  "prepared no_iterations_run =
     Inr ([Some \<lparr>constructed = PathTracer () 1000, rMaxPathLength = Some 10, runs = []\<rparr>,
           Some \<lparr>constructed = PathTracer () 1001, rMaxPathLength = Some 10, runs = []\<rparr>], 0)
   \<and> sint (0 :: int32) \<le> 0
   \<and> mFramebuffer no_iterations_run = [Fin 9, Fin 0]
   \<and> render two_threads no_iterations_run = Inr ([PInf, NaN], Fin 3)"
proof -
  let ?rs = "[Some \<lparr>constructed = PathTracer () 1000, rMaxPathLength = Some 10, runs = []\<rparr>,
           Some \<lparr>constructed = PathTracer () (1001 :: int32), rMaxPathLength = Some (10 :: uint), runs = []\<rparr>]"
  have p: "prepared no_iterations_run = Inr (?rs, 0)"
    by (simp add: run_simps path_tracing_run_def no_iterations_run_def)
  have z: "sint (0 :: int32) \<le> 0" by simp
  have f: "mFramebuffer no_iterations_run = [Fin 9, Fin 0]"
    by (simp add: path_tracing_run_def no_iterations_run_def)
  from no_used_renderer_no_error [of two_threads no_iterations_run "[]" ?rs 0] p z
  have "render two_threads no_iterations_run
        = Inr (Scale (mFramebuffer no_iterations_run) PInf, elapsed two_threads)"
    by blast
  then have "render two_threads no_iterations_run = Inr ([PInf, NaN], Fin 3)"
    by (simp add: f Scale_def inf_of_sign_def elapsed_def float_of_int_def two_threads_def)
  with p z f show ?thesis by blast
qed

text \<open>
  C3, as stated, fails for the eye-light selector: \<^verbatim>\<open>new EyeLight(*aConfig.mScene)\<close>
  passes no seed, so with base seed 1000 and two workers no slot is seeded 1000 or 1001.
\<close>

theorem eye_light_receives_no_seed:
  "known_algorithm (mAlgorithm eye_light_run)
   \<and> sint (mNumThreads eye_light_run) = 2
   \<and> mBaseSeed eye_light_run = 1000
   \<and> assigned_seeds eye_light_run = [None, None]
   \<and> assigned_seeds eye_light_run \<noteq> [Some 1000, Some 1001]"
  by (simp add: run_simps assigned_seeds_def known_algorithm_def kAlgorithmMax_def
      eye_light_run_def path_tracing_run_def)

text \<open>
  C3, amended. For every selector of the closed set and every worker count \<open>W \<ge> 1\<close>:
  the eye-light renderers are constructed from the scene alone and receive no seed; for
  each of the other six selectors the renderer of slot \<open>i\<close> is seeded with
  \<^verbatim>\<open>mBaseSeed + i\<close> in 32-bit arithmetic. These seeds are pairwise distinct, they are a
  function of the base seed and the worker count alone, and where \<open>base + W\<close> does not
  pass \<open>2^31\<close> they are the integers \<open>base, base + 1, \<dots>, base + W - 1\<close>.
\<close>

theorem seeds_are_base_plus_slot:
  assumes "known_algorithm (mAlgorithm c)" and "0 < sint (mNumThreads c)"
  shows "assigned_seeds c =
           (if mAlgorithm c = kEyeLight then replicate (nat (sint (mNumThreads c))) None
            else map (\<lambda>i. Some (mBaseSeed c + of_nat i)) [0..<nat (sint (mNumThreads c))])
         \<and> (mAlgorithm c \<noteq> kEyeLight \<longrightarrow> distinct (assigned_seeds c))
         \<and> (mAlgorithm c \<noteq> kEyeLight \<and> sint (mBaseSeed c) + sint (mNumThreads c) \<le> 2 ^ 31
              \<longrightarrow> map (map_option sint) (assigned_seeds c)
                   = map (\<lambda>i. Some (sint (mBaseSeed c) + int i)) [0..<nat (sint (mNumThreads c))])"
proof -
  from assms(2) have n: "0 \<le> sint (mNumThreads c)" by simp
  note a = assigned_seeds_known [OF assms(1) n]
  have 1: "assigned_seeds c =
           (if mAlgorithm c = kEyeLight then replicate (nat (sint (mNumThreads c))) None
            else map (\<lambda>i. Some (mBaseSeed c + of_nat i)) [0..<nat (sint (mNumThreads c))])"
    by (simp add: a map_replicate_const)
  have 2: "distinct (assigned_seeds c)" if "mAlgorithm c \<noteq> kEyeLight"
    using that seeds_distinct [of "mBaseSeed c" "mNumThreads c"] by (simp add: 1)
  have 3: "map (map_option sint) (assigned_seeds c)
             = map (\<lambda>i. Some (sint (mBaseSeed c) + int i)) [0..<nat (sint (mNumThreads c))]"
    if e: "mAlgorithm c \<noteq> kEyeLight" and b: "sint (mBaseSeed c) + sint (mNumThreads c) \<le> 2 ^ 31"
  proof -
    have "sint (mBaseSeed c + of_nat i) = sint (mBaseSeed c) + int i"
      if "i < nat (sint (mNumThreads c))" for i
      using that b threads_bound [of "mNumThreads c"] by (intro sint_seed) simp_all
    then show ?thesis using e by (simp add: 1)
  qed
  from 1 2 3 show ?thesis by blast
qed

theorem seeds_are_base_plus_slot_witness:
  "known_algorithm (mAlgorithm path_tracing_run)
   \<and> sint (mNumThreads path_tracing_run) = 2
   \<and> mBaseSeed path_tracing_run = 1000
   \<and> assigned_seeds path_tracing_run = [Some 1000, Some 1001]
   \<and> distinct (assigned_seeds path_tracing_run)
   \<and> map (map_option sint) (assigned_seeds path_tracing_run) = [Some 1000, Some 1001]"
proof -
  have k: "known_algorithm (mAlgorithm path_tracing_run)"
    by (simp add: known_algorithm_def kAlgorithmMax_def kPathTracing_def path_tracing_run_def)
  have n: "sint (mNumThreads path_tracing_run) = 2" and b: "mBaseSeed path_tracing_run = 1000"
    and e: "mAlgorithm path_tracing_run \<noteq> kEyeLight"
    by (simp_all add: path_tracing_run_def kPathTracing_def kEyeLight_def)
  have pos: "0 < sint (mNumThreads path_tracing_run)" by (simp add: n)
  have r: "sint (mBaseSeed path_tracing_run) + sint (mNumThreads path_tracing_run) \<le> 2 ^ 31"
    by (simp add: n b)
  note t = seeds_are_base_plus_slot [OF k pos]
  from t e have s1: "assigned_seeds path_tracing_run
          = map (\<lambda>i. Some (mBaseSeed path_tracing_run + of_nat i))
              [0..<nat (sint (mNumThreads path_tracing_run))]"
    by (simp only: if_False)
  from t e have s2: "distinct (assigned_seeds path_tracing_run)"
    by blast
  from t e r have s3: "map (map_option sint) (assigned_seeds path_tracing_run)
          = map (\<lambda>i. Some (sint (mBaseSeed path_tracing_run) + int i))
              [0..<nat (sint (mNumThreads path_tracing_run))]"
    by blast
  from s1 s2 s3
  have "assigned_seeds path_tracing_run = [Some 1000, Some 1001]"
    and "distinct (assigned_seeds path_tracing_run)"
    and "map (map_option sint) (assigned_seeds path_tracing_run) = [Some 1000, Some 1001]"
    by (simp_all add: n b numeral_2_eq_2)
  with k n b show ?thesis by blast
qed

text \<open>
  C4. With \<open>W \<ge> 1\<close> workers and \<open>I \<ge> 1\<close> iterations to dispatch (\<open>I\<close> the local
  \<^verbatim>\<open>iterations\<close>), under any schedule that names threads below \<open>W\<close>, the iteration loop
  completes and has made exactly \<open>I\<close> calls of \<^verbatim>\<open>RunIteration\<close>: worker \<open>w\<close> ran exactly
  the indices scheduled to it, every index of \<open>0..I-1\<close> was passed exactly once to the
  renderer of its thread and to no other, and no other index was passed.
\<close>

theorem every_index_dispatched_once:
  fixes env :: "'scene extern" and c :: "'scene Config"
  assumes "prepared c = Inr (rs0, iterations)"
    and "0 < sint (mNumThreads c)" and "0 < sint iterations"
    and "\<forall>iter<nat (sint iterations). omp_get_thread_num env iter < nat (sint (mNumThreads c))"
  shows "\<exists>rs. dispatched env c = Inr rs
           \<and> length (instances rs) = nat (sint (mNumThreads c))
           \<and> (\<forall>w<nat (sint (mNumThreads c)).
                 runs (instances rs ! w) = scheduled env (nat (sint iterations)) w)
           \<and> (\<forall>iter<nat (sint iterations). \<forall>w<nat (sint (mNumThreads c)).
                 count_list (runs (instances rs ! w)) (int iter)
                   = (if omp_get_thread_num env iter = w then 1 else 0))
           \<and> (\<forall>r\<in>set (instances rs). set (runs r) \<subseteq> int ` {0..<nat (sint iterations)})
           \<and> sum_list (map (\<lambda>r. length (runs r)) (instances rs)) = nat (sint iterations)"
proof -
  let ?W = "nat (sint (mNumThreads c))"
  let ?I = "nat (sint iterations)"
  from prepared_shape [OF assms(1)] obtain xs where
    xs: "rs0 = map Some xs" "length xs = ?W"
      "\<forall>r\<in>set xs. rMaxPathLength r = Some (mMaxPathLength c) \<and> runs r = []" by auto
  let ?ys = "iterated env ?I xs"
  have v: "\<forall>iter<?I. omp_get_thread_num env iter < length xs"
    using assms(4) xs(2) by simp
  have d: "dispatched env c = Inr (map Some ?ys)"
    using dispatch_eq [OF v] by (simp add: dispatched_def assms(1) xs(1))
  have fresh: "runs (xs ! w) = []" if "w < ?W" for w
    using that xs(2,3) by (metis nth_mem)
  have r: "runs (?ys ! w) = scheduled env ?I w" if "w < ?W" for w
    using that xs(2) fresh [OF that] by (simp add: iterated_nth)
  have 1: "length (instances (map Some ?ys)) = ?W"
    by (simp add: instances_map_Some length_iterated xs(2))
  have 2: "\<forall>w<?W. runs (instances (map Some ?ys) ! w) = scheduled env ?I w"
    using r by (simp add: instances_map_Some)
  have 3: "\<forall>iter<?I. \<forall>w<?W. count_list (runs (instances (map Some ?ys) ! w)) (int iter)
                   = (if omp_get_thread_num env iter = w then 1 else 0)"
    using r by (simp add: instances_map_Some count_scheduled)
  have 4: "\<forall>r\<in>set (instances (map Some ?ys)). set (runs r) \<subseteq> int ` {0..<?I}"
  proof
    fix q assume "q \<in> set (instances (map Some ?ys))"
    then have "q \<in> set ?ys" by (simp add: instances_map_Some)
    then obtain w where "w < length ?ys" "q = ?ys ! w" by (auto simp: in_set_conv_nth)
    then have "w < ?W" "q = ?ys ! w" by (simp_all add: length_iterated xs(2))
    with r [of w] scheduled_set [of env ?I w] show "set (runs q) \<subseteq> int ` {0..<?I}" by simp
  qed
  have "map (\<lambda>r. length (runs r)) ?ys = map (\<lambda>w. length (scheduled env ?I w)) [0..<?W]"
    using fresh by (simp add: iterated_def xs(2))
  then have 5: "sum_list (map (\<lambda>r. length (runs r)) (instances (map Some ?ys))) = ?I"
    using total_scheduled [of ?I env ?W] assms(4) by (simp add: instances_map_Some)
  from d 1 2 3 4 5 show ?thesis by blast
qed

theorem every_index_dispatched_once_witness:
  "prepared path_tracing_run =
     Inr ([Some \<lparr>constructed = PathTracer () 1000, rMaxPathLength = Some 10, runs = []\<rparr>,
           Some \<lparr>constructed = PathTracer () 1001, rMaxPathLength = Some 10, runs = []\<rparr>], 3)
   \<and> sint (mNumThreads path_tracing_run) = 2
   \<and> map (omp_get_thread_num two_threads) [0, 1, 2] = [0, 1, 0]
   \<and> (\<exists>rs. dispatched two_threads path_tracing_run = Inr rs
         \<and> map runs (instances rs) = [[0, 2], [1]]
         \<and> sum_list (map (\<lambda>r. length (runs r)) (instances rs)) = 3)"
proof -
  let ?rs0 = "[Some \<lparr>constructed = PathTracer () 1000, rMaxPathLength = Some 10, runs = []\<rparr>,
           Some \<lparr>constructed = PathTracer () (1001 :: int32), rMaxPathLength = Some (10 :: uint), runs = []\<rparr>]"
  have p: "prepared path_tracing_run = Inr (?rs0, 3)"
    by (simp add: run_simps path_tracing_run_def)
  have n: "sint (mNumThreads path_tracing_run) = 2"
    by (simp add: path_tracing_run_def)
  have pos: "0 < sint (mNumThreads path_tracing_run)" "0 < sint (3 :: int32)"
    by (simp_all add: n)
  have s: "map (omp_get_thread_num two_threads) [0, 1, 2] = [0, 1, 0]"
    by (simp add: two_threads_def)
  have v: "\<forall>iter<nat (sint (3 :: int32)).
             omp_get_thread_num two_threads iter < nat (sint (mNumThreads path_tracing_run))"
    by (simp add: n two_threads_def)
  from every_index_dispatched_once [OF p pos v] obtain rs where
    d: "dispatched two_threads path_tracing_run = Inr rs"
    and l: "length (instances rs) = nat (sint (mNumThreads path_tracing_run))"
    and r: "\<forall>w<nat (sint (mNumThreads path_tracing_run)).
                 runs (instances rs ! w) = scheduled two_threads (nat (sint (3 :: int32))) w"
    and t: "sum_list (map (\<lambda>r. length (runs r)) (instances rs)) = nat (sint (3 :: int32))"
    by blast
  from l obtain r1 r2 where i: "instances rs = [r1, r2]"
    by (auto simp: n numeral_2_eq_2 length_Suc_conv)
  from r have "runs (instances rs ! 0) = scheduled two_threads 3 0"
    and "runs (instances rs ! 1) = scheduled two_threads 3 1"
    by (simp_all add: n)
  then have "map runs (instances rs) = [[0, 2], [1]]"
    by (simp add: i scheduled_def two_threads_def numeral_3_eq_3)
  with d t have "\<exists>rs. dispatched two_threads path_tracing_run = Inr rs
         \<and> map runs (instances rs) = [[0, 2], [1]]
         \<and> sum_list (map (\<lambda>r. length (runs r)) (instances rs)) = 3"
    by (intro exI [of _ rs]) simp
  with p n s show ?thesis by blast
qed

text \<open>
  C5. For the eye-light selector, the algorithm whose iterations "have no meaning", the
  local \<^verbatim>\<open>iterations\<close> is 1 whatever \<^verbatim>\<open>mIterations\<close> holds, and 1 is the budget the
  iteration loop runs with: the loop is the single call \<^verbatim>\<open>RunIteration(0)\<close> on the
  renderer of the thread that runs iteration 0, so with \<open>W \<ge> 1\<close> workers the renderers
  have run the index 0 once and nothing else. A run configured with any budget \<open>I\<close>
  dispatches and returns exactly what the run configured with 1 does.
\<close>

theorem eye_light_ignores_iteration_budget:
  fixes env :: "'scene extern" and c :: "'scene Config"
  assumes "mAlgorithm c = kEyeLight"
  shows "snd (construct_renderers (c\<lparr>mIterations := I\<rparr>) rs) = 1
         \<and> dispatched env (c\<lparr>mIterations := I\<rparr>) = dispatched env (c\<lparr>mIterations := 1\<rparr>)
         \<and> render env (c\<lparr>mIterations := I\<rparr>) = render env (c\<lparr>mIterations := 1\<rparr>)
         \<and> dispatched env (c\<lparr>mIterations := I\<rparr>) =
             (case prepared (c\<lparr>mIterations := I\<rparr>) of
                Inl e \<Rightarrow> Inl e
              | Inr (renderers, iterations) \<Rightarrow>
                  (case deref renderers (omp_get_thread_num env 0) of
                     Inl e \<Rightarrow> Inl e
                   | Inr r \<Rightarrow>
                       Inr (renderers[omp_get_thread_num env 0 := Some (RunIteration r 0)])))
         \<and> (0 < sint (mNumThreads c) \<and> omp_get_thread_num env 0 < nat (sint (mNumThreads c))
            \<longrightarrow> (\<exists>rs'. dispatched env (c\<lparr>mIterations := I\<rparr>) = Inr rs'
                   \<and> length (instances rs') = nat (sint (mNumThreads c))
                   \<and> concat (map runs (instances rs')) = [0]
                   \<and> runs (instances rs' ! omp_get_thread_num env 0) = [0]))"
proof -
  let ?cI = "c\<lparr>mIterations := I\<rparr>"
  have c: "construct_renderers (c\<lparr>mIterations := J\<rparr>) rs
           = (construct_each (mNumThreads c) (\<lambda>i. EyeLight (mScene c)) rs, 1)" for J rs
    using assms by (simp add: construct_renderers_def)
  have s: "set_max_path_length (c\<lparr>mIterations := J\<rparr>) rs = set_max_path_length c rs" for J rs
    by (simp add: set_max_path_length_def cong: sum.case_cong)
  have p: "prepared ?cI = prepared (c\<lparr>mIterations := 1\<rparr>)"
    by (simp add: prepared_def c s cong: sum.case_cong)
  have m: "merge env ?cI rs = merge env (c\<lparr>mIterations := 1\<rparr>) rs" for rs
    by (simp add: merge_def)
  have d: "dispatched env ?cI = dispatched env (c\<lparr>mIterations := 1\<rparr>)"
    by (simp add: dispatched_def p)
  have r: "render env ?cI = render env (c\<lparr>mIterations := 1\<rparr>)"
    by (simp add: render_def p m cong: sum.case_cong)
  have one: "its = 1" if "prepared ?cI = Inr (rs0, its)" for rs0 its
    using that by (auto simp: prepared_def c split: sum.splits)
  have loop: "dispatched env ?cI =
             (case prepared ?cI of
                Inl e \<Rightarrow> Inl e
              | Inr (renderers, iterations) \<Rightarrow>
                  (case deref renderers (omp_get_thread_num env 0) of
                     Inl e \<Rightarrow> Inl e
                   | Inr r \<Rightarrow>
                       Inr (renderers[omp_get_thread_num env 0 := Some (RunIteration r 0)])))"
  proof (cases "prepared ?cI")
    case (Inl e)
    then show ?thesis by (simp add: dispatched_def)
  next
    case (Inr q)
    obtain rs0 its where q: "q = (rs0, its)" by (cases q)
    from one [of rs0 its] Inr q have "its = 1" by simp
    with Inr q show ?thesis by (simp add: dispatched_def dispatch_one)
  qed
  have trace: "\<exists>rs'. dispatched env ?cI = Inr rs'
                   \<and> length (instances rs') = nat (sint (mNumThreads c))
                   \<and> concat (map runs (instances rs')) = [0]
                   \<and> runs (instances rs' ! omp_get_thread_num env 0) = [0]"
    if w: "0 < sint (mNumThreads c)" and t: "omp_get_thread_num env 0 < nat (sint (mNumThreads c))"
  proof -
    let ?n = "nat (sint (mNumThreads c))"
    let ?t = "omp_get_thread_num env 0"
    let ?x = "ready ?cI (EyeLight (mScene c))"
    let ?ys = "(replicate ?n ?x)[?t := RunIteration ?x 0]"
    have a: "mAlgorithm ?cI = kEyeLight" using assms by simp
    have "dispatched env ?cI = Inr (map Some ?ys)"
      using dispatched_eye_light [OF a, of env] w t by simp
    moreover have "length (instances (map Some ?ys)) = ?n"
      by (simp add: instances_map_Some)
    moreover have "concat (map runs (instances (map Some ?ys))) = [0]"
      using t by (simp add: instances_map_Some concat_runs_replicate_update ready_def RunIteration_def)
    moreover have "runs (instances (map Some ?ys) ! ?t) = [0]"
      using t by (simp add: instances_map_Some ready_def RunIteration_def)
    ultimately show ?thesis by blast
  qed
  from c [of I rs] d r loop trace show ?thesis by simp
qed

theorem eye_light_ignores_iteration_budget_witness:
  "mAlgorithm eye_light_run = kEyeLight
   \<and> mIterations eye_light_run = 5
   \<and> sint (mNumThreads eye_light_run) = 2
   \<and> omp_get_thread_num two_threads 0 = 0
   \<and> dispatched two_threads (eye_light_run\<lparr>mIterations := 1\<rparr>) =
       Inr [Some \<lparr>constructed = EyeLight (), rMaxPathLength = Some 10, runs = [0]\<rparr>,
            Some \<lparr>constructed = EyeLight (), rMaxPathLength = Some 10, runs = []\<rparr>]
   \<and> dispatched two_threads (eye_light_run\<lparr>mIterations := 7\<rparr>) =
       Inr [Some \<lparr>constructed = EyeLight (), rMaxPathLength = Some 10, runs = [0]\<rparr>,
            Some \<lparr>constructed = EyeLight (), rMaxPathLength = Some 10, runs = []\<rparr>]
   \<and> render (two_threads\<lparr>GetFramebuffer := \<lambda>r. map float_of_int (runs r)\<rparr>)
        (eye_light_run\<lparr>mIterations := 1\<rparr>) = Inr ([Fin 0], Fin 3)
   \<and> render (two_threads\<lparr>GetFramebuffer := \<lambda>r. map float_of_int (runs r)\<rparr>)
        (eye_light_run\<lparr>mIterations := 7\<rparr>) = Inr ([Fin 0], Fin 3)
   \<and> (\<exists>rs'. dispatched two_threads (eye_light_run\<lparr>mIterations := 7\<rparr>) = Inr rs'
         \<and> concat (map runs (instances rs')) = [0])"
proof -
  let ?env = "two_threads\<lparr>GetFramebuffer := \<lambda>r. map float_of_int (runs r)\<rparr>"
  let ?rs = "[Some \<lparr>constructed = EyeLight (), rMaxPathLength = Some (10 :: uint), runs = [0]\<rparr>,
            Some \<lparr>constructed = EyeLight (), rMaxPathLength = Some 10, runs = []\<rparr>]"
  have a: "mAlgorithm eye_light_run = kEyeLight" "mIterations eye_light_run = 5"
    "sint (mNumThreads eye_light_run) = 2" "omp_get_thread_num two_threads 0 = 0"
    by (simp_all add: eye_light_run_def path_tracing_run_def two_threads_def)
  have h: "0 < sint (mNumThreads eye_light_run)
           \<and> omp_get_thread_num two_threads 0 < nat (sint (mNumThreads eye_light_run))"
    by (simp add: a)
  have d1: "dispatched two_threads (eye_light_run\<lparr>mIterations := 1\<rparr>) = Inr ?rs"
    by (simp add: run_simps two_threads_def path_tracing_run_def eye_light_run_def)
  have r1: "render ?env (eye_light_run\<lparr>mIterations := 1\<rparr>) = Inr ([Fin 0], Fin 3)"
    by (simp add: run_simps two_threads_def path_tracing_run_def eye_light_run_def)
  note t = eye_light_ignores_iteration_budget [OF a(1), where I = 7 and rs = "[]"]
  from t [of two_threads] d1
  have d7: "dispatched two_threads (eye_light_run\<lparr>mIterations := 7\<rparr>) = Inr ?rs"
    by simp
  from t [of ?env] r1
  have r7: "render ?env (eye_light_run\<lparr>mIterations := 7\<rparr>) = Inr ([Fin 0], Fin 3)"
    by simp
  from t [of two_threads] h
  have e: "\<exists>rs'. dispatched two_threads (eye_light_run\<lparr>mIterations := 7\<rparr>) = Inr rs'
         \<and> concat (map runs (instances rs')) = [0]"
    by blast
  from a d1 d7 r1 r7 e show ?thesis by blast
qed

text \<open>
  C6. The range checks of \<^verbatim>\<open>GetName\<close> and \<^verbatim>\<open>GetAcronym\<close> answer with the unknown marker
  exactly for the selector values below 0 or above 7. Both tables have 7 entries, which
  the selectors \<open>0..6\<close> read; the selector 7 (\<^verbatim>\<open>kAlgorithmMax\<close>) passes the check and
  indexes past the table.
\<close>

theorem lookup_range_check_admits_7:
  fixes c :: "'scene Config"
  shows
  "(GetName c = Inr ''Uknown algorithm'' \<longleftrightarrow> mAlgorithm c < 0 \<or> 7 < mAlgorithm c)
   \<and> (GetAcronym c = Inr ''uknown'' \<longleftrightarrow> mAlgorithm c < 0 \<or> 7 < mAlgorithm c)
   \<and> length GetName_algorithmNames = 7
   \<and> length GetAcronym_algorithmNames = 7
   \<and> map (\<lambda>a. GetName (c\<lparr>mAlgorithm := a\<rparr>)) [0, 1, 2, 3, 4, 5, 6] = map Inr GetName_algorithmNames
   \<and> map (\<lambda>a. GetAcronym (c\<lparr>mAlgorithm := a\<rparr>)) [0, 1, 2, 3, 4, 5, 6] = map Inr GetAcronym_algorithmNames
   \<and> GetName (c\<lparr>mAlgorithm := kAlgorithmMax\<rparr>) = Inl out_of_bounds_read
   \<and> GetAcronym (c\<lparr>mAlgorithm := kAlgorithmMax\<rparr>) = Inl out_of_bounds_read"
proof -
  have name: "GetName c = Inr ''Uknown algorithm'' \<longleftrightarrow> mAlgorithm c < 0 \<or> 7 < mAlgorithm c"
  proof (cases "mAlgorithm c < 0 \<or> 7 < mAlgorithm c")
    case True
    then show ?thesis by (simp add: GetName_def)
  next
    case False
    then have "0 \<le> mAlgorithm c" "mAlgorithm c \<le> 7" by auto
    then show ?thesis
      by (rule selector_cases)
         (simp_all add: GetName_def table_read_def GetName_algorithmNames_def)
  qed
  have acro: "GetAcronym c = Inr ''uknown'' \<longleftrightarrow> mAlgorithm c < 0 \<or> 7 < mAlgorithm c"
  proof (cases "mAlgorithm c < 0 \<or> 7 < mAlgorithm c")
    case True
    then show ?thesis by (simp add: GetAcronym_def)
  next
    case False
    then have "0 \<le> mAlgorithm c" "mAlgorithm c \<le> 7" by auto
    then show ?thesis
      by (rule selector_cases)
         (simp_all add: GetAcronym_def table_read_def GetAcronym_algorithmNames_def)
  qed
  have tables: "length GetName_algorithmNames = 7" "length GetAcronym_algorithmNames = 7"
    by (simp_all add: GetName_algorithmNames_def GetAcronym_algorithmNames_def)
  have inside:
    "map (\<lambda>a. GetName (c\<lparr>mAlgorithm := a\<rparr>)) [0, 1, 2, 3, 4, 5, 6] = map Inr GetName_algorithmNames"
    "map (\<lambda>a. GetAcronym (c\<lparr>mAlgorithm := a\<rparr>)) [0, 1, 2, 3, 4, 5, 6] = map Inr GetAcronym_algorithmNames"
    by (simp_all add: GetName_def GetAcronym_def table_read_def
        GetName_algorithmNames_def GetAcronym_algorithmNames_def)
  have seven:
    "GetName (c\<lparr>mAlgorithm := kAlgorithmMax\<rparr>) = Inl out_of_bounds_read"
    "GetAcronym (c\<lparr>mAlgorithm := kAlgorithmMax\<rparr>) = Inl out_of_bounds_read"
    by (simp_all add: GetName_def GetAcronym_def table_read_def kAlgorithmMax_def
        GetName_algorithmNames_def GetAcronym_algorithmNames_def)
  from name acro tables inside seven show ?thesis by blast
qed

text \<open>
  C7. For a selector of the closed set and \<open>W \<ge> 1\<close>: when the iteration loop starts,
  all \<open>W\<close> renderers are constructed, every one of them holds the configured
  \<^verbatim>\<open>mMaxPathLength\<close>, and none has run an iteration. Every renderer still holds that
  bound when the loop is over.
\<close>

theorem max_path_length_set_before_dispatch:
  fixes c :: "'scene Config"
  assumes "known_algorithm (mAlgorithm c)" and "0 < sint (mNumThreads c)"
  shows "(\<exists>rs its. prepared c = Inr (rs, its)
            \<and> length rs = nat (sint (mNumThreads c))
            \<and> length (instances rs) = nat (sint (mNumThreads c))
            \<and> (\<forall>r\<in>set (instances rs).
                  rMaxPathLength r = Some (mMaxPathLength c) \<and> runs r = []))
         \<and> (dispatched env c = Inr rs'
              \<longrightarrow> length (instances rs') = nat (sint (mNumThreads c))
                \<and> (\<forall>r\<in>set (instances rs'). rMaxPathLength r = Some (mMaxPathLength c)))"
proof -
  from assms(2) have n: "0 \<le> sint (mNumThreads c)" by simp
  from prepared_known [OF assms(1) n] obtain rs its where p: "prepared c = Inr (rs, its)"
    by blast
  from prepared_shape [OF p] obtain xs where
    xs: "rs = map Some xs" "length xs = nat (sint (mNumThreads c))"
      "\<forall>r\<in>set xs. rMaxPathLength r = Some (mMaxPathLength c) \<and> runs r = []" by auto
  have 1: "\<exists>rs its. prepared c = Inr (rs, its)
            \<and> length rs = nat (sint (mNumThreads c))
            \<and> length (instances rs) = nat (sint (mNumThreads c))
            \<and> (\<forall>r\<in>set (instances rs).
                  rMaxPathLength r = Some (mMaxPathLength c) \<and> runs r = [])"
    using p xs by (intro exI [of _ rs] exI [of _ its]) (simp add: instances_map_Some)
  have 2: "length (instances rs') = nat (sint (mNumThreads c))
           \<and> (\<forall>r\<in>set (instances rs'). rMaxPathLength r = Some (mMaxPathLength c))"
    if d: "dispatched env c = Inr rs'"
  proof -
    from dispatched_Inr [OF d] obtain ys and its' :: int32 where
      ys: "length ys = nat (sint (mNumThreads c))"
        "\<forall>r\<in>set ys. rMaxPathLength r = Some (mMaxPathLength c) \<and> runs r = []"
        "rs' = map Some (iterated env (nat (sint its')) ys)"
      by blast
    from ys(2) have "\<forall>r\<in>set ys. rMaxPathLength r = Some (mMaxPathLength c)" by simp
    from iterated_bound [OF this] ys(1,3) show ?thesis
      by (simp add: instances_map_Some length_iterated)
  qed
  from 1 2 show ?thesis by blast
qed

theorem max_path_length_set_before_dispatch_witness:
  "known_algorithm (mAlgorithm path_tracing_run)
   \<and> sint (mNumThreads path_tracing_run) = 2
   \<and> mMaxPathLength path_tracing_run = 10
   \<and> (\<exists>rs its. prepared path_tracing_run = Inr (rs, its)
         \<and> map rMaxPathLength (instances rs) = [Some 10, Some 10]
         \<and> map runs (instances rs) = [[], []])
   \<and> (\<exists>rs. dispatched two_threads path_tracing_run = Inr rs
         \<and> map rMaxPathLength (instances rs) = [Some 10, Some 10])"
proof -
  let ?rs = "[Some \<lparr>constructed = PathTracer () 1000, rMaxPathLength = Some 10, runs = [0, 2]\<rparr>,
          Some \<lparr>constructed = PathTracer () (1001 :: int32), rMaxPathLength = Some (10 :: uint), runs = [1]\<rparr>]"
  have k: "known_algorithm (mAlgorithm path_tracing_run)"
    by (simp add: known_algorithm_def kAlgorithmMax_def kPathTracing_def path_tracing_run_def)
  have n: "sint (mNumThreads path_tracing_run) = 2" and m: "mMaxPathLength path_tracing_run = 10"
    by (simp_all add: path_tracing_run_def)
  have pos: "0 < sint (mNumThreads path_tracing_run)" by (simp add: n)
  have d: "dispatched two_threads path_tracing_run = Inr ?rs"
    by (simp add: run_simps two_threads_def path_tracing_run_def)
  note t = max_path_length_set_before_dispatch [OF k pos, of two_threads ?rs]
  from t obtain rs its where p: "prepared path_tracing_run = Inr (rs, its)"
    and l: "length (instances rs) = nat (sint (mNumThreads path_tracing_run))"
    and a: "\<forall>r\<in>set (instances rs).
              rMaxPathLength r = Some (mMaxPathLength path_tracing_run) \<and> runs r = []"
    by blast
  from l have l2: "length (instances rs) = 2" by (simp add: n)
  then obtain r1 r2 where i: "instances rs = [r1, r2]"
    by (auto simp: numeral_2_eq_2 length_Suc_conv)
  from a have "map rMaxPathLength (instances rs) = [Some 10, Some 10]"
    and "map runs (instances rs) = [[], []]"
    by (simp_all add: i m)
  with p have 1: "\<exists>rs its. prepared path_tracing_run = Inr (rs, its)
         \<and> map rMaxPathLength (instances rs) = [Some 10, Some 10]
         \<and> map runs (instances rs) = [[], []]"
    by (intro exI [of _ rs] exI [of _ its] conjI)
  from t d have "\<forall>r\<in>set (instances ?rs). rMaxPathLength r = Some (mMaxPathLength path_tracing_run)"
    by blast
  then have "map rMaxPathLength (instances ?rs) = [Some 10, Some 10]"
    by (simp add: instances_def m)
  with d have 2: "\<exists>rs. dispatched two_threads path_tracing_run = Inr rs
         \<and> map rMaxPathLength (instances rs) = [Some 10, Some 10]"
    by (intro exI [of _ ?rs] conjI)
  from k n m 1 2 show ?thesis by blast
qed

text \<open>
  C8. The value \<^verbatim>\<open>render\<close> returns is the ticks of the iteration loop alone, divided by
  \<^verbatim>\<open>CLOCKS_PER_SEC\<close>: the clock is read right before and right after the loop, so the
  ticks of construction, merge and teardown and the clock's value at entry do not enter
  it. The framebuffer does not depend on the clock: under any other clock \<^verbatim>\<open>render\<close>
  returns the same buffer.
\<close>

theorem elapsed_brackets_dispatch_only:
  assumes "render env c = Inr (fb, t)"
  shows "t = fdiv (float_of_int (int (ticks env Dispatch))) (float_of_int (CLOCKS_PER_SEC env))
         \<and> render (env\<lparr>clock_at_entry := entry, ticks := tk, CLOCKS_PER_SEC := per_sec\<rparr>) c
             = Inr (fb, fdiv (float_of_int (int (tk Dispatch))) (float_of_int per_sec))"
proof -
  let ?env' = "env\<lparr>clock_at_entry := entry, ticks := tk, CLOCKS_PER_SEC := per_sec\<rparr>"
  from assms obtain rs where d: "dispatched env c = Inr rs"
    by (rule render_Inr_dispatched)
  have "dispatch ?env' its rs0 = dispatch env its rs0" for its rs0
    by (simp add: dispatch_def)
  then have d': "dispatched ?env' c = Inr rs"
    using d by (simp add: dispatched_def cong: sum.case_cong)
  have m: "merged ?env' (mFramebuffer c) U = merged env (mFramebuffer c) U" for U
    by (cases U) (simp_all add: merged_def)
  from render_dispatched [OF d] assms
  have fb: "fb = Scale (fst (merged env (mFramebuffer c) (used_instances rs)))
            (fdiv (Fin 1) (float_of_nat (length (used_instances rs))))"
    and t: "t = elapsed env" by simp_all
  from render_dispatched [OF d'] fb m
  have "render ?env' c = Inr (fb, elapsed ?env')" by simp
  with t show ?thesis by (simp add: elapsed_def)
qed

theorem elapsed_brackets_dispatch_only_witness:
  "render two_threads path_tracing_run = Inr ([Fin 4, Fin 2], Fin 3)
   \<and> ticks two_threads Dispatch = 6 \<and> CLOCKS_PER_SEC two_threads = 2
   \<and> render (two_threads\<lparr>clock_at_entry := 0, ticks := (\<lambda>s. if s = Dispatch then 8 else 1000),
                 CLOCKS_PER_SEC := 4\<rparr>) path_tracing_run = Inr ([Fin 4, Fin 2], Fin 2)"
proof -
  have r: "render two_threads path_tracing_run = Inr ([Fin 4, Fin 2], Fin 3)"
    by (simp add: run_simps two_threads_def path_tracing_run_def)
  have k: "ticks two_threads Dispatch = 6" "CLOCKS_PER_SEC two_threads = 2"
    by (simp_all add: two_threads_def)
  from elapsed_brackets_dispatch_only
    [OF r, where entry = 0 and tk = "\<lambda>s. if s = Dispatch then 8 else 1000" and per_sec = 4]
  have "render (two_threads\<lparr>clock_at_entry := 0, ticks := (\<lambda>s. if s = Dispatch then 8 else 1000),
                 CLOCKS_PER_SEC := 4\<rparr>) path_tracing_run = Inr ([Fin 4, Fin 2], Fin 2)"
    by (simp add: float_of_int_def)
  with r k show ?thesis by blast
qed

text \<open>
  C9. For the eye-light selector and \<open>W \<ge> 1\<close>, whatever \<^verbatim>\<open>mIterations\<close> holds (0 and
  negative values included): the iteration loop makes the single call
  \<^verbatim>\<open>RunIteration(0)\<close>, exactly one renderer ends up used, the scale factor is
  \<open>1 / 1\<close>, and \<^verbatim>\<open>render\<close> returns that renderer's buffer. The division by zero of the
  empty case cannot happen.
\<close>

theorem eye_light_runs_one_iteration:
  fixes env :: "'scene extern" and c :: "'scene Config"
  assumes "mAlgorithm c = kEyeLight" and "0 < sint (mNumThreads c)"
    and "omp_get_thread_num env 0 < nat (sint (mNumThreads c))"
  shows "\<exists>rs r. dispatched env c = Inr rs
           \<and> r = \<lparr>constructed = EyeLight (mScene c),
                   rMaxPathLength = Some (mMaxPathLength c), runs = [0]\<rparr>
           \<and> used_instances rs = [r]
           \<and> concat (map runs (instances rs)) = [0]
           \<and> fdiv (Fin 1) (float_of_nat (length (used_instances rs))) = Fin 1
           \<and> render env c = Inr (GetFramebuffer env r, elapsed env)"
proof -
  let ?n = "nat (sint (mNumThreads c))"
  let ?t = "omp_get_thread_num env 0"
  let ?x = "ready c (EyeLight (mScene c))"
  let ?r = "\<lparr>constructed = EyeLight (mScene c),
                   rMaxPathLength = Some (mMaxPathLength c), runs = [0]\<rparr>"
  let ?ys = "(replicate ?n ?x)[?t := ?r]"
  from assms(2) have n: "0 \<le> sint (mNumThreads c)" by simp
  note p = prepared_eye_light [OF assms(1) n]
  have v: "\<forall>iter<nat (sint (1 :: int32)). omp_get_thread_num env iter < length (replicate ?n ?x)"
    using assms(3) by simp
  have r: "RunIteration ?x 0 = ?r" by (simp add: RunIteration_def ready_def)
  have one: "nat (sint (1 :: int32)) = Suc 0" by simp
  have "iterated env (Suc 0) (replicate ?n ?x) = ?ys"
    using assms(3) iterated_one [of env "replicate ?n ?x"] by (simp add: r)
  with dispatch_eq [OF v]
  have "dispatch env 1 (map Some (replicate ?n ?x)) = Inr (map Some ?ys)"
    by (simp only: one)
  then have d: "dispatched env c = Inr (map Some ?ys)"
    unfolding dispatched_def p by (simp only: sum.case prod.case)
  have u: "used_instances (map Some ?ys) = [?r]"
    using assms(3)
    by (simp add: used_instances_def instances_map_Some filter_replicate_update WasUsed_def ready_def)
  have a: "concat (map runs (instances (map Some ?ys))) = [0]"
    using assms(3) by (simp add: instances_map_Some concat_runs_replicate_update ready_def)
  have f: "fdiv (Fin 1) (float_of_nat (length (used_instances (map Some ?ys)))) = Fin 1"
    by (simp add: u float_of_nat_def)
  have "render env c = Inr (GetFramebuffer env ?r, elapsed env)"
    using render_dispatched [OF d] by (simp add: u merged_def float_of_nat_def Scale_one)
  with d u a f show ?thesis by blast
qed

theorem eye_light_runs_one_iteration_witness:
  "mAlgorithm eye_light_run = kEyeLight
   \<and> sint (mIterations eye_light_run) = 5
   \<and> sint (mNumThreads eye_light_run) = 2
   \<and> omp_get_thread_num two_threads 0 = 0
   \<and> dispatched two_threads eye_light_run =
       Inr [Some \<lparr>constructed = EyeLight (), rMaxPathLength = Some 10, runs = [0]\<rparr>,
            Some \<lparr>constructed = EyeLight (), rMaxPathLength = Some 10, runs = []\<rparr>]
   \<and> render two_threads eye_light_run = Inr ([Fin 6, Fin 0], Fin 3)"
proof -
  let ?rs = "[Some \<lparr>constructed = EyeLight (), rMaxPathLength = Some (10 :: uint), runs = [0]\<rparr>,
            Some \<lparr>constructed = EyeLight (), rMaxPathLength = Some 10, runs = []\<rparr>]"
  have a: "mAlgorithm eye_light_run = kEyeLight" "sint (mIterations eye_light_run) = 5"
    "sint (mNumThreads eye_light_run) = 2" "omp_get_thread_num two_threads 0 = 0"
    "mScene eye_light_run = ()" "mMaxPathLength eye_light_run = 10"
    by (simp_all add: eye_light_run_def path_tracing_run_def two_threads_def)
  have pos: "0 < sint (mNumThreads eye_light_run)" by (simp add: a)
  have t: "omp_get_thread_num two_threads 0 < nat (sint (mNumThreads eye_light_run))"
    by (simp add: a)
  have d: "dispatched two_threads eye_light_run = Inr ?rs"
    by (simp add: run_simps two_threads_def eye_light_run_def path_tracing_run_def)
  from eye_light_runs_one_iteration [OF a(1) pos t]
  have "render two_threads eye_light_run
        = Inr (GetFramebuffer two_threads
                \<lparr>constructed = EyeLight (mScene eye_light_run),
                   rMaxPathLength = Some (mMaxPathLength eye_light_run), runs = [0]\<rparr>,
               elapsed two_threads)"
    by blast
  then have "render two_threads eye_light_run = Inr ([Fin 6, Fin 0], Fin 3)"
    by (simp add: a elapsed_def float_of_int_def two_threads_def)
  with a d show ?thesis by blast
qed

text \<open>
  C10. In the sweep of \<^verbatim>\<open>main\<close>, \<^verbatim>\<open>sceneId2 % sceneConfigCount\<close> is below
  \<^verbatim>\<open>sceneConfigCount\<close> for every \<^verbatim>\<open>sceneId2\<close>, so every one of the 24 passes ORs
  \<^verbatim>\<open>kGlossyFloor\<close> into the mask: the passes 12..23 load the same scenes with the same
  glossy masks as the passes 0..11.
\<close>

theorem second_half_of_sweep_is_glossy_again:
  "(\<forall>sceneId2. sceneId2 smod sceneConfigCount Scene < sceneConfigCount Scene)
   \<and> sceneConfigCount Scene * 2 = 24
   \<and> (let passes = map (\<lambda>sceneId. (int sceneId,
                                     mMask (sceneConfigs Scene ! sceneId) OR kGlossyFloor Scene))
                      [0..<12]
      in main_sweep Scene = Inr (passes @ passes))"
proof -
  have "main_sweep Scene =
          Inr (map (\<lambda>sceneId. (int sceneId, mMask (sceneConfigs Scene ! sceneId) OR kGlossyFloor Scene))
                 [0..<12]
               @ map (\<lambda>sceneId. (int sceneId, mMask (sceneConfigs Scene ! sceneId) OR kGlossyFloor Scene))
                   [0..<12])"
    unfolding main_sweep_def sceneConfigCount_eq
    by (simp add: upt_24 upt_12 sweep_body_def sceneConfigCount_eq table_read_def smod_int_alt_def
        sceneConfigs_def SceneConfig_new_def)
  then show ?thesis
    using smod_below [of _ Scene] by (simp add: sceneConfigCount_eq Let_def)
qed

end
